theory Spec2Isabelle
  imports Complex_Main "HOL-Library.Word"
begin

section \<open>Conventions of the embedding\<close>

text \<open>
  The embedding follows the C++ sources of miniNN (\<^verbatim>\<open>tensor.cpp\<close>, \<^verbatim>\<open>tensor_ops.cpp\<close>,
  \<^verbatim>\<open>model_loader.cpp\<close>, \<^verbatim>\<open>inference_engine.cpp\<close>).
  \<^item> \<^verbatim>\<open>float\<close> is IEEE-754 binary32, the datatype \<open>f32\<close>: a finite value, an infinity or
    NaN. Every arithmetic operation computes the exact result and rounds it to the
    nearest binary32 value, ties to even, overflowing to an infinity (\<open>rnd\<close>). The two
    zeros are one value \<open>Fin 0\<close>: they compare equal, and their sign shows only in a
    quotient by zero, which is taken with the divisor \<^verbatim>\<open>+0.0\<close>. The library function
    \<^verbatim>\<open>std::exp\<close> on \<^verbatim>\<open>float\<close> is a parameter \<open>fexp\<close> of the operations that call it.
  \<^item> \<^verbatim>\<open>size_t\<close> is 64 bits wide. A value is a \<open>nat\<close>, and every sum and product that the
    sources compute in \<^verbatim>\<open>size_t\<close> is reduced modulo \<open>2 ^ 64\<close> (\<open>size_add\<close>, \<open>size_mul\<close>).
    Loop counters run below a bound that is a \<^verbatim>\<open>size_t\<close> and need no reduction.
  \<^item> The buffer \<^verbatim>\<open>std::unique_ptr<float[]> data_\<close> is a list; the null pointer and an
    allocation of length zero are both the empty list (neither holds an element that can
    be read). Allocation is assumed to succeed.
  \<^item> A \<^verbatim>\<open>throw\<close> is a result \<open>Inl e\<close>. The sources throw \<^verbatim>\<open>std::invalid_argument\<close>,
    \<^verbatim>\<open>std::out_of_range\<close> and \<^verbatim>\<open>std::runtime_error\<close> with a message; every kind of
    failure is a constructor of \<open>error\<close>, and the comment beside it lists the messages
    of its throw sites.
  \<^item> Reading or writing a raw buffer outside its allocation is undefined behaviour in
    C++; the model makes it the result \<open>Inl BufferOverrun\<close>, so that a theorem stating
    a successful result also states that no such access happens.
  \<^item> Tensors that a function receives by reference and may receive twice (\<^verbatim>\<open>this\<close> and
    \<^verbatim>\<open>other\<close> of \<^verbatim>\<open>operator/=\<close>; the operands and \<^verbatim>\<open>result\<close> of \<^verbatim>\<open>matmul\<close>; \<^verbatim>\<open>input\<close> and
    \<^verbatim>\<open>output\<close> of \<^verbatim>\<open>forward\<close>) live in a store, a list of tensor objects; a reference is
    a position of the store, and two references alias exactly when they are the same
    position. A reference always names an object: the positions passed are below the
    length of the store. A function that changes one object only (\<^verbatim>\<open>reshape\<close>, \<^verbatim>\<open>relu\<close>,
    \<^verbatim>\<open>softmax\<close>) takes the object and returns it afterwards.
\<close>

text \<open>\<^verbatim>\<open>enum class LayerType : uint8_t\<close> (model_loader.h); it is declared here because an
  error of the inference engine carries the type of the failing layer.\<close>

datatype LayerType = LINEAR | RELU | SIGMOID | SOFTMAX

datatype error =
    InvalidShape          \<comment> \<open>validateShape: "Shape cannot be empty", "Shape dimensions cannot be zero"\<close>
  | SizeMismatch          \<comment> \<open>Tensor(shape, data): "Data size does not match tensor shape"\<close>
  | InvalidArgument       \<comment> \<open>calculateIndex: "Number of indices must match tensor rank";
                              reshape: "New shape must preserve total number of elements"\<close>
  | OutOfRange            \<comment> \<open>calculateIndex: std::out_of_range "Index out of bounds"\<close>
  | ShapeMismatch         \<comment> \<open>operator+= etc.: "Tensor shapes must match for ..."; validateInput\<close>
  | DivisionByZero        \<comment> \<open>operator/=: "Division by zero"\<close>
  | MatmulRank            \<comment> \<open>matmul: "Matrix multiplication requires 2D tensors"\<close>
  | DimensionMismatch     \<comment> \<open>matmul: "Inner dimensions must match ..."; LinearLayer::forward:
                              "Input features must match weight input dimension"\<close>
  | InvalidRank           \<comment> \<open>LinearLayer::forward: "Linear layer input must be 1D or 2D tensor"\<close>
  | InvalidLayer          \<comment> \<open>LinearLayer constructor: the three dimension checks\<close>
  | EmptyInput            \<comment> \<open>softmax: "Cannot compute Softmax on empty tensor"\<close>
  | NullLayer             \<comment> \<open>Model::addLayer: "Cannot add null layer to model"\<close>
  | NullModel             \<comment> \<open>InferenceEngine: "Cannot create inference engine with null model"\<close>
  | EmptyModel            \<comment> \<open>InferenceEngine: "... with empty model";
                              validateHeader: "Model must contain at least one layer"\<close>
  | UndeclaredShapes      \<comment> \<open>InferenceEngine: "Model must have defined input and output shapes"\<close>
  | UnsupportedDType      \<comment> \<open>validateInput: "Input tensor must be FLOAT32 type";
                              loadTensor: "Only FLOAT32 tensors are currently supported"\<close>
  | LayerExecutionError nat LayerType error
                          \<comment> \<open>executeForwardPass: "Error in layer i (type: t): " + what()\<close>
  | OutputShapeMismatch   \<comment> \<open>executeForwardPass: "Output shape mismatch. ..."\<close>
  | FileOpenError         \<comment> \<open>loadFromFile: "Failed to open model file: ..."\<close>
  | TruncatedFile         \<comment> \<open>readBinary: "Failed to read binary data from file";
                              loadTensor: "Failed to read tensor data"\<close>
  | FormatError           \<comment> \<open>validateHeader: "Invalid model file format (magic number mismatch)"\<close>
  | UnsupportedVersion    \<comment> \<open>validateHeader: "Unsupported model version: ..."\<close>
  | TooManyLayers         \<comment> \<open>validateHeader: "Model contains too many layers: ..."\<close>
  | UnknownLayerType      \<comment> \<open>loadLayer: "Unknown layer type: ..."\<close>
  | InvalidTensorRank     \<comment> \<open>loadTensor: "Invalid tensor rank: ..."\<close>
  | LoadFailed error      \<comment> \<open>loadFromFile's catch: "Failed to load model from path: " + what()\<close>
  | BufferOverrun         \<comment> \<open>not a throw: a raw buffer access outside the allocation\<close>

datatype DataType = FLOAT32 | INT8 | INT4

section \<open>The type \<^verbatim>\<open>float\<close>\<close>

datatype f32 = Fin real | PInf | NInf | NaN

text \<open>The value \<^verbatim>\<open>0.0f\<close>, with which \<^verbatim>\<open>make_unique<float[]>\<close> fills a new buffer.\<close>

instantiation f32 :: zero
begin

definition zero_f32 :: f32 where
  "zero_f32 = Fin 0"

instance ..

end

text \<open>
  The binade of a real number \<open>x\<close> is the exponent \<open>k\<close> with \<open>2 ^ k \<le> \<bar>x\<bar> < 2 ^ (k + 1)\<close>,
  kept within the exponents of binary32: it is \<open>-126\<close> for everything below \<open>2 ^ -125\<close>
  (the subnormal numbers and the first normal binade share one spacing) and \<open>128\<close> from
  \<open>2 ^ 128\<close> on. The binary32 values of a binade are the multiples of its \<open>quantum\<close>
  \<open>2 ^ (k - 23)\<close> (24 significant bits).
\<close>

definition binade :: "real \<Rightarrow> int" where
  "binade x =
     (case find (\<lambda>k. \<bar>x\<bar> < 2 powi (k + 1)) [-126..127] of Some k \<Rightarrow> k | None \<Rightarrow> 128)"

definition quantum :: "real \<Rightarrow> real" where
  "quantum x = 2 powi (binade x - 23)"

text \<open>The nearest integer, the even one of two that are equally near.\<close>

definition round_even :: "real \<Rightarrow> int" where
  "round_even y =
     (let f = \<lfloor>y\<rfloor>; d = y - of_int f
      in if d < 1 / 2 then f else if 1 / 2 < d then f + 1 else if even f then f else f + 1)"

text \<open>Rounding to nearest, ties to even: first with an unbounded exponent, then with
  the overflow to an infinity when the rounded magnitude reaches \<open>2 ^ 128\<close>.\<close>

definition round_real :: "real \<Rightarrow> real" where
  "round_real x = of_int (round_even (x / quantum x)) * quantum x"

definition rnd :: "real \<Rightarrow> f32" where
  "rnd x =
     (let r = round_real x
      in if 2 ^ 128 \<le> \<bar>r\<bar> then (if 0 < x then PInf else NInf) else Fin r)"

text \<open>A real number is a binary32 value when rounding leaves it alone; \<open>finite32\<close> is
  \<^verbatim>\<open>std::isfinite\<close> on a value of the type.\<close>

definition is_f32 :: "real \<Rightarrow> bool" where
  "is_f32 r \<longleftrightarrow> rnd r = Fin r"

fun finite32 :: "f32 \<Rightarrow> bool" where
  "finite32 (Fin r) = is_f32 r"
| "finite32 _ = False"

text \<open>The operators \<^verbatim>\<open>+\<close>, unary \<^verbatim>\<open>-\<close>, binary \<^verbatim>\<open>-\<close>, \<^verbatim>\<open>*\<close>, \<^verbatim>\<open>/\<close>, \<^verbatim>\<open><\<close> and \<^verbatim>\<open>==\<close> on \<^verbatim>\<open>float\<close>.\<close>

fun fadd :: "f32 \<Rightarrow> f32 \<Rightarrow> f32" where
  "fadd (Fin a) (Fin b) = rnd (a + b)"
| "fadd NaN _ = NaN"
| "fadd _ NaN = NaN"
| "fadd PInf NInf = NaN"
| "fadd NInf PInf = NaN"
| "fadd PInf _ = PInf"
| "fadd _ PInf = PInf"
| "fadd NInf _ = NInf"
| "fadd _ NInf = NInf"

fun fneg :: "f32 \<Rightarrow> f32" where
  "fneg (Fin a) = Fin (- a)"
| "fneg PInf = NInf"
| "fneg NInf = PInf"
| "fneg NaN = NaN"

definition fsub :: "f32 \<Rightarrow> f32 \<Rightarrow> f32" where
  "fsub x y = fadd x (fneg y)"

fun fmul :: "f32 \<Rightarrow> f32 \<Rightarrow> f32" where
  "fmul (Fin a) (Fin b) = rnd (a * b)"
| "fmul NaN _ = NaN"
| "fmul _ NaN = NaN"
| "fmul (Fin a) PInf = (if a = 0 then NaN else if 0 < a then PInf else NInf)"
| "fmul (Fin a) NInf = (if a = 0 then NaN else if 0 < a then NInf else PInf)"
| "fmul PInf (Fin b) = (if b = 0 then NaN else if 0 < b then PInf else NInf)"
| "fmul NInf (Fin b) = (if b = 0 then NaN else if 0 < b then NInf else PInf)"
| "fmul PInf PInf = PInf"
| "fmul PInf NInf = NInf"
| "fmul NInf PInf = NInf"
| "fmul NInf NInf = PInf"

fun fdiv :: "f32 \<Rightarrow> f32 \<Rightarrow> f32" where
  "fdiv (Fin a) (Fin b) =
     (if b = 0 then (if a = 0 then NaN else if 0 < a then PInf else NInf) else rnd (a / b))"
| "fdiv NaN _ = NaN"
| "fdiv _ NaN = NaN"
| "fdiv (Fin a) PInf = Fin 0"
| "fdiv (Fin a) NInf = Fin 0"
| "fdiv PInf (Fin b) = (if 0 \<le> b then PInf else NInf)"
| "fdiv NInf (Fin b) = (if 0 \<le> b then NInf else PInf)"
| "fdiv PInf PInf = NaN"
| "fdiv PInf NInf = NaN"
| "fdiv NInf PInf = NaN"
| "fdiv NInf NInf = NaN"

fun flt :: "f32 \<Rightarrow> f32 \<Rightarrow> bool" where
  "flt (Fin a) (Fin b) = (a < b)"
| "flt NaN _ = False"
| "flt _ NaN = False"
| "flt _ NInf = False"
| "flt NInf _ = True"
| "flt PInf _ = False"
| "flt _ PInf = True"

fun feq :: "f32 \<Rightarrow> f32 \<Rightarrow> bool" where
  "feq (Fin a) (Fin b) = (a = b)"
| "feq PInf PInf = True"
| "feq NInf NInf = True"
| "feq _ _ = False"

text \<open>\<^verbatim>\<open>std::max(a, b)\<close> is \<^verbatim>\<open>(a < b) ? b : a\<close>.\<close>

definition fmax :: "f32 \<Rightarrow> f32 \<Rightarrow> f32" where
  "fmax a b = (if flt a b then b else a)"

section \<open>The type \<^verbatim>\<open>size_t\<close>\<close>

definition size_add :: "nat \<Rightarrow> nat \<Rightarrow> nat" where
  "size_add a b = (a + b) mod 2 ^ 64"

definition size_mul :: "nat \<Rightarrow> nat \<Rightarrow> nat" where
  "size_mul a b = (a * b) mod 2 ^ 64"

subsection \<open>Raw buffers and counted loops\<close>

definition deref :: "'a list \<Rightarrow> nat \<Rightarrow> error + 'a" where
  "deref p i = (if i < length p then Inr (p ! i) else Inl BufferOverrun)"

definition assign :: "'a list \<Rightarrow> nat \<Rightarrow> 'a \<Rightarrow> error + 'a list" where
  "assign p i v = (if i < length p then Inr (p[i := v]) else Inl BufferOverrun)"

text \<open>\<open>for_loop is body s\<close> runs \<open>body i\<close> for the indices of \<open>is\<close> in order on the state
  \<open>s\<close> and stops at the first throw.\<close>

fun for_loop :: "nat list \<Rightarrow> (nat \<Rightarrow> 's \<Rightarrow> error + 's) \<Rightarrow> 's \<Rightarrow> error + 's" where
  "for_loop [] body s = Inr s"
| "for_loop (i # is) body s =
     (case body i s of Inl e \<Rightarrow> Inl e | Inr s' \<Rightarrow> for_loop is body s')"

section \<open>Tensor (tensor.h, tensor.cpp)\<close>

record 'a Tensor =
  shape :: "nat list"
  total_size :: nat
  dtype :: DataType
  data :: "'a list"

definition rank :: "'a Tensor \<Rightarrow> nat" where
  "rank t = length (shape t)"

text \<open>\<^verbatim>\<open>Tensor::Tensor()\<close>\<close>

definition Tensor_default :: "'a Tensor" where
  "Tensor_default = \<lparr>shape = [], total_size = 0, dtype = FLOAT32, data = []\<rparr>"

text \<open>\<^verbatim>\<open>Tensor::validateShape\<close>\<close>

definition validateShape :: "nat list \<Rightarrow> error + unit" where
  "validateShape s =
     (if s = [] then Inl InvalidShape
      else if list_ex (\<lambda>dim. dim = 0) s then Inl InvalidShape
      else Inr ())"

text \<open>\<^verbatim>\<open>Tensor::calculateTotalSize\<close>: \<^verbatim>\<open>std::accumulate\<close> from \<^verbatim>\<open>1ULL\<close> with
  \<^verbatim>\<open>std::multiplies<size_t>\<close>.\<close>

definition calculateTotalSize :: "nat list \<Rightarrow> nat" where
  "calculateTotalSize s = foldl (\<lambda>acc d. size_mul acc d) 1 s"

text \<open>\<^verbatim>\<open>Tensor(shape, dtype)\<close>: \<^verbatim>\<open>make_unique<float[]>(n)\<close> value-initialises, so the
  buffer holds \<open>n\<close> zeros.\<close>

definition Tensor_new :: "nat list \<Rightarrow> DataType \<Rightarrow> error + ('a::zero) Tensor" where
  "Tensor_new s dt =
     (case validateShape s of
        Inl e \<Rightarrow> Inl e
      | Inr _ \<Rightarrow>
          let n = calculateTotalSize s
          in Inr \<lparr>shape = s, total_size = n, dtype = dt, data = replicate n 0\<rparr>)"

text \<open>\<^verbatim>\<open>Tensor(shape, data, dtype)\<close>\<close>

definition Tensor_of :: "nat list \<Rightarrow> 'a list \<Rightarrow> DataType \<Rightarrow> error + 'a Tensor" where
  "Tensor_of s d dt =
     (case validateShape s of
        Inl e \<Rightarrow> Inl e
      | Inr _ \<Rightarrow>
          let n = calculateTotalSize s
          in if length d \<noteq> n then Inl SizeMismatch
             else Inr \<lparr>shape = s, total_size = n, dtype = dt, data = d\<rparr>)"

text \<open>Copy constructor and copy assignment: a new buffer of \<open>total_size\<close> elements is
  filled by \<^verbatim>\<open>std::copy\<close> from the first \<open>total_size\<close> elements of the source.\<close>

definition Tensor_copy :: "'a Tensor \<Rightarrow> error + 'a Tensor" where
  "Tensor_copy other =
     (if total_size other \<le> length (data other)
      then Inr \<lparr>shape = shape other, total_size = total_size other, dtype = dtype other,
                data = take (total_size other) (data other)\<rparr>
      else Inl BufferOverrun)"


text \<open>\<^verbatim>\<open>Tensor::calculateIndex\<close>: the rank check, the bounds loop, then the loop from the
  last index down that accumulates \<open>index\<close> and \<open>multiplier\<close>.\<close>

definition check_bounds :: "nat list \<Rightarrow> nat list \<Rightarrow> error + unit" where
  "check_bounds s indices =
     for_loop [0..<length indices]
       (\<lambda>i u. if indices ! i \<ge> s ! i then Inl OutOfRange else Inr u) ()"

definition linearize :: "nat list \<Rightarrow> nat list \<Rightarrow> nat" where
  "linearize s indices =
     fst (fold (\<lambda>i (index, multiplier).
                  (size_add index (size_mul (indices ! i) multiplier), size_mul multiplier (s ! i)))
            (rev [0..<length indices]) (0, 1))"

definition calculateIndex :: "'a Tensor \<Rightarrow> nat list \<Rightarrow> error + nat" where
  "calculateIndex t indices =
     (if length indices \<noteq> length (shape t) then Inl InvalidArgument
      else case check_bounds (shape t) indices of
             Inl e \<Rightarrow> Inl e
           | Inr _ \<Rightarrow> Inr (linearize (shape t) indices))"

text \<open>\<^verbatim>\<open>Tensor::at\<close> as a read, and as a write through the returned reference.\<close>

definition Tensor_at :: "'a Tensor \<Rightarrow> nat list \<Rightarrow> error + 'a" where
  "Tensor_at t indices =
     (case calculateIndex t indices of
        Inl e \<Rightarrow> Inl e
      | Inr idx \<Rightarrow> deref (data t) idx)"

definition Tensor_at_put :: "'a Tensor \<Rightarrow> nat list \<Rightarrow> 'a \<Rightarrow> error + 'a Tensor" where
  "Tensor_at_put t indices v =
     (case calculateIndex t indices of
        Inl e \<Rightarrow> Inl e
      | Inr idx \<Rightarrow>
          (case assign (data t) idx v of
             Inl e \<Rightarrow> Inl e
           | Inr d \<Rightarrow> Inr (t\<lparr>data := d\<rparr>)))"

text \<open>\<^verbatim>\<open>Tensor::reshape\<close>: the product is again \<^verbatim>\<open>std::accumulate\<close> from \<^verbatim>\<open>1ULL\<close> with
  \<^verbatim>\<open>std::multiplies<size_t>\<close>.\<close>

definition reshape :: "'a Tensor \<Rightarrow> nat list \<Rightarrow> error + 'a Tensor" where
  "reshape t new_shape =
     (let new_total_size = foldl (\<lambda>acc d. size_mul acc d) 1 new_shape
      in if new_total_size \<noteq> total_size t then Inl InvalidArgument
         else Inr (t\<lparr>shape := new_shape\<rparr>))"

text \<open>The four invariants of the data model; the product is the mathematical one.\<close>

definition tensor_inv :: "'a Tensor \<Rightarrow> bool" where
  "tensor_inv t \<longleftrightarrow>
     shape t \<noteq> [] \<and> \<not> list_ex (\<lambda>dim. dim = 0) (shape t) \<and>
     total_size t = prod_list (shape t) \<and> length (data t) = total_size t"

subsection \<open>Division in place, on a store of tensor objects\<close>

text \<open>\<open>for_loop_st\<close> is \<open>for_loop\<close> that also returns the state reached when the body
  throws (a body throws before it writes).\<close>

fun for_loop_st :: "nat list \<Rightarrow> (nat \<Rightarrow> 's \<Rightarrow> error + 's) \<Rightarrow> 's \<Rightarrow> error option \<times> 's" where
  "for_loop_st [] body s = (None, s)"
| "for_loop_st (i # is) body s =
     (case body i s of Inl e \<Rightarrow> (Some e, s) | Inr s' \<Rightarrow> for_loop_st is body s')"

text \<open>
  \<^verbatim>\<open>operator/=\<close> writes through \<^verbatim>\<open>this\<close> while it reads \<^verbatim>\<open>other\<close>, and the two references
  may name one object. The objects live in a store, a list of tensors addressed by
  position; a \<^verbatim>\<open>Tensor\<close> owns its buffer alone (\<^verbatim>\<open>unique_ptr\<close>), so two references share a
  buffer exactly when they are the same position. The result is the exception thrown,
  if any, and the store at that moment.
\<close>

type_synonym store = "f32 Tensor list"

definition div_assign :: "store \<Rightarrow> nat \<Rightarrow> nat \<Rightarrow> error option \<times> store" where
  "div_assign st this other =
     (if shape (st ! this) \<noteq> shape (st ! other) then (Some ShapeMismatch, st)
      else
        for_loop_st [0..<total_size (st ! this)] (\<lambda>i st.
          case deref (data (st ! other)) i of
            Inl e \<Rightarrow> Inl e
          | Inr d \<Rightarrow>
              if feq d (Fin 0) then Inl DivisionByZero
              else
                (case deref (data (st ! this)) i of
                   Inl e \<Rightarrow> Inl e
                 | Inr x \<Rightarrow>
                     Inr (st[this := (st ! this)\<lparr>data := (data (st ! this))[i := fdiv x d]\<rparr>]))) st)"

text \<open>\<^verbatim>\<open>operator/(lhs, rhs)\<close>: the local \<^verbatim>\<open>result\<close> is a new object, copy-constructed from
  \<open>lhs\<close> at the end of the store; it is returned by value, or destroyed when \<^verbatim>\<open>/=\<close>
  throws, and is gone from the store either way.\<close>

definition op_div :: "store \<Rightarrow> nat \<Rightarrow> nat \<Rightarrow> (error + f32 Tensor) \<times> store" where
  "op_div st lhs rhs =
     (case Tensor_copy (st ! lhs) of
        Inl e \<Rightarrow> (Inl e, st)
      | Inr result0 \<Rightarrow>
          let result = length st
          in case div_assign (st @ [result0]) result rhs of
               (Some e, st') \<Rightarrow> (Inl e, butlast st')
             | (None, st') \<Rightarrow> (Inr (st' ! result), butlast st'))"

text \<open>The flat index of the first zero of a buffer (its length when there is none).\<close>

definition first_zero :: "f32 list \<Rightarrow> nat" where
  "first_zero b = length (takeWhile (\<lambda>x. x \<noteq> Fin 0) b)"

section \<open>TensorOps (tensor_ops.cpp)\<close>

text \<open>\<^verbatim>\<open>TensorOps::matmul(tensor1, tensor2, result)\<close> on the store: the three references
  are positions, and \<open>result\<close> may be the position of an operand. The shapes are copied
  into \<open>shape1\<close> and \<open>shape2\<close> before anything is written. The new tensor
  \<^verbatim>\<open>Tensor({m, p})\<close> is move-assigned to \<open>result\<close>, then the triple loop reads the operands
  of the current store through the bounds-checked \<^verbatim>\<open>at\<close> (the local \<^verbatim>\<open>sum\<close> is \<open>acc\<close>,
  starting from \<^verbatim>\<open>0.0f\<close>) and stores each sum through \<^verbatim>\<open>result.at({i, j})\<close>.\<close>

definition matmul :: "store \<Rightarrow> nat \<Rightarrow> nat \<Rightarrow> nat \<Rightarrow> error + store" where
  "matmul st tensor1 tensor2 result =
     (if rank (st ! tensor1) \<noteq> 2 \<or> rank (st ! tensor2) \<noteq> 2 then Inl MatmulRank
      else
        let shape1 = shape (st ! tensor1); shape2 = shape (st ! tensor2)
        in if shape1 ! 1 \<noteq> shape2 ! 0 then Inl DimensionMismatch
           else
             let m = shape1 ! 0; n = shape1 ! 1; p = shape2 ! 1
             in case Tensor_new [m, p] FLOAT32 of
                  Inl e \<Rightarrow> Inl e
                | Inr new \<Rightarrow>
                    for_loop [0..<m] (\<lambda>i st.
                      for_loop [0..<p] (\<lambda>j st.
                        case for_loop [0..<n] (\<lambda>k acc.
                               case Tensor_at (st ! tensor1) [i, k] of
                                 Inl e \<Rightarrow> Inl e
                               | Inr a \<Rightarrow>
                                   (case Tensor_at (st ! tensor2) [k, j] of
                                      Inl e \<Rightarrow> Inl e
                                    | Inr b \<Rightarrow> Inr (fadd acc (fmul a b)))) (Fin 0) of
                          Inl e \<Rightarrow> Inl e
                        | Inr acc \<Rightarrow>
                            (case Tensor_at_put (st ! result) [i, j] acc of
                               Inl e \<Rightarrow> Inl e
                             | Inr r \<Rightarrow> Inr (st[result := r]))) st) (st[result := new]))"

text \<open>\<^verbatim>\<open>TensorOps::relu\<close>, in place on the raw buffer.\<close>

definition relu :: "f32 Tensor \<Rightarrow> error + f32 Tensor" where
  "relu tensor =
     (case for_loop [0..<total_size tensor] (\<lambda>i d.
             case deref d i of
               Inl e \<Rightarrow> Inl e
             | Inr x \<Rightarrow> if flt x (Fin 0) then assign d i (Fin 0) else Inr d) (data tensor) of
        Inl e \<Rightarrow> Inl e
      | Inr d \<Rightarrow> Inr (tensor\<lparr>data := d\<rparr>))"

text \<open>\<^verbatim>\<open>TensorOps::sigmoid\<close>\<close>

definition sigmoid :: "(f32 \<Rightarrow> f32) \<Rightarrow> f32 Tensor \<Rightarrow> error + f32 Tensor" where
  "sigmoid fexp tensor =
     (case for_loop [0..<total_size tensor] (\<lambda>i d.
             case deref d i of
               Inl e \<Rightarrow> Inl e
             | Inr x \<Rightarrow> assign d i (fdiv (Fin 1) (fadd (Fin 1) (fexp (fneg x))))) (data tensor) of
        Inl e \<Rightarrow> Inl e
      | Inr d \<Rightarrow> Inr (tensor\<lparr>data := d\<rparr>))"

text \<open>\<^verbatim>\<open>TensorOps::softmax\<close>: the maximum, then the loop that exponentiates in place
  and sums (state: buffer and acc, the local \<^verbatim>\<open>sum\<close>), then the scaling by
  \<^verbatim>\<open>1.0f / sum\<close>.\<close>

definition softmax :: "(f32 \<Rightarrow> f32) \<Rightarrow> f32 Tensor \<Rightarrow> error + f32 Tensor" where
  "softmax fexp tensor =
     (if total_size tensor = 0 then Inl EmptyInput
      else
        case deref (data tensor) 0 of
          Inl e \<Rightarrow> Inl e
        | Inr x0 \<Rightarrow>
        case for_loop [1..<total_size tensor] (\<lambda>i max_val.
               case deref (data tensor) i of
                 Inl e \<Rightarrow> Inl e
               | Inr x \<Rightarrow> Inr (fmax max_val x)) x0 of
          Inl e \<Rightarrow> Inl e
        | Inr max_val \<Rightarrow>
        case for_loop [0..<total_size tensor] (\<lambda>i (d, acc).
               case deref d i of
                 Inl e \<Rightarrow> Inl e
               | Inr x \<Rightarrow>
                   (case assign d i (fexp (fsub x max_val)) of
                      Inl e \<Rightarrow> Inl e
                    | Inr d' \<Rightarrow> Inr (d', fadd acc (fexp (fsub x max_val))))) (data tensor, Fin 0) of
          Inl e \<Rightarrow> Inl e
        | Inr (d1, acc) \<Rightarrow>
        let inverse_sum = fdiv (Fin 1) acc
        in case for_loop [0..<total_size tensor] (\<lambda>i d.
                  case deref d i of
                    Inl e \<Rightarrow> Inl e
                  | Inr x \<Rightarrow> assign d i (fmul x inverse_sum)) d1 of
             Inl e \<Rightarrow> Inl e
           | Inr d2 \<Rightarrow> Inr (tensor\<lparr>data := d2\<rparr>))"

section \<open>Layers (model_loader.h, model_loader.cpp)\<close>

record LinearLayer =
  weights :: "f32 Tensor"
  bias :: "f32 Tensor"

text \<open>\<^verbatim>\<open>LinearLayer::LinearLayer(weights, bias)\<close>: the members are copy-constructed from
  the arguments, then the three checks run on the arguments.\<close>

definition LinearLayer_new :: "f32 Tensor \<Rightarrow> f32 Tensor \<Rightarrow> error + LinearLayer" where
  "LinearLayer_new w b =
     (case Tensor_copy w of
        Inl e \<Rightarrow> Inl e
      | Inr weights_copy \<Rightarrow>
     (case Tensor_copy b of
        Inl e \<Rightarrow> Inl e
      | Inr bias_copy \<Rightarrow>
          if rank w \<noteq> 2 then Inl InvalidLayer
          else if rank b \<noteq> 1 then Inl InvalidLayer
          else if shape w ! 1 \<noteq> shape b ! 0 then Inl InvalidLayer
          else Inr \<lparr>weights = weights_copy, bias = bias_copy\<rparr>))"

text \<open>\<^verbatim>\<open>std::memcpy(dst, src, n * sizeof(float))\<close> on two buffers.\<close>

definition memcpy :: "'a list \<Rightarrow> 'a list \<Rightarrow> nat \<Rightarrow> error + 'a list" where
  "memcpy dst src n =
     (if n \<le> length src \<and> n \<le> length dst then Inr (take n src @ drop n dst)
      else Inl BufferOverrun)"

text \<open>\<^verbatim>\<open>LinearLayer::forward(input, output)\<close> on the store; \<open>input\<close> and \<open>output\<close> are
  positions and may be the same one. The members \<^verbatim>\<open>weights_\<close> and \<^verbatim>\<open>bias_\<close> are private
  to the layer, so no reference of a caller names them.

  For an input of rank 1 the locals \<^verbatim>\<open>input_2d\<close> and \<^verbatim>\<open>output_temp\<close> and the member
  \<^verbatim>\<open>weights_\<close> are the three objects (positions 0, 1 and 2) of the store on which
  \<^verbatim>\<open>matmul\<close> runs; \<open>output\<close> is assigned after \<open>input\<close> has been read for the last time.
  For an input of rank 2, \<^verbatim>\<open>matmul(input, weights_, output)\<close> runs on the caller's store
  extended by \<^verbatim>\<open>weights_\<close>. In \<^verbatim>\<open>output.at({batch, feature}) += bias_.at({feature})\<close> the
  right operand is evaluated first.\<close>

definition LinearLayer_forward :: "LinearLayer \<Rightarrow> store \<Rightarrow> nat \<Rightarrow> nat \<Rightarrow> error + store" where
  "LinearLayer_forward L st input output =
     (if rank (st ! input) = 1 then
        if shape (st ! input) ! 0 \<noteq> shape (weights L) ! 0 then Inl DimensionMismatch
        else
          case Tensor_new [1, shape (st ! input) ! 0] FLOAT32 of
            Inl e \<Rightarrow> Inl e
          | Inr input_2d0 \<Rightarrow>
          case memcpy (data input_2d0) (data (st ! input)) (total_size (st ! input)) of
            Inl e \<Rightarrow> Inl e
          | Inr d \<Rightarrow>
          case matmul [input_2d0\<lparr>data := d\<rparr>, Tensor_default, weights L] 0 2 1 of
            Inl e \<Rightarrow> Inl e
          | Inr locals \<Rightarrow>
          case Tensor_new [shape (weights L) ! 1] FLOAT32 of
            Inl e \<Rightarrow> Inl e
          | Inr output0 \<Rightarrow>
              let output_temp = locals ! 1
              in for_loop [0..<total_size output0] (\<lambda>i st.
                   case deref (data output_temp) i of
                     Inl e \<Rightarrow> Inl e
                   | Inr x \<Rightarrow>
                       (case deref (data (bias L)) i of
                          Inl e \<Rightarrow> Inl e
                        | Inr b \<Rightarrow>
                            (case assign (data (st ! output)) i (fadd x b) of
                               Inl e \<Rightarrow> Inl e
                             | Inr d' \<Rightarrow> Inr (st[output := (st ! output)\<lparr>data := d'\<rparr>]))))
                   (st[output := output0])
      else if rank (st ! input) = 2 then
        if shape (st ! input) ! 1 \<noteq> shape (weights L) ! 0 then Inl DimensionMismatch
        else
          case matmul (st @ [weights L]) input (length st) output of
            Inl e \<Rightarrow> Inl e
          | Inr st1 \<Rightarrow>
              let st2 = butlast st1;
                  batch_size = shape (st2 ! output) ! 0;
                  output_features = shape (st2 ! output) ! 1
              in for_loop [0..<batch_size] (\<lambda>batch st.
                   for_loop [0..<output_features] (\<lambda>feature st.
                     case Tensor_at (bias L) [feature] of
                       Inl e \<Rightarrow> Inl e
                     | Inr b \<Rightarrow>
                         (case Tensor_at (st ! output) [batch, feature] of
                            Inl e \<Rightarrow> Inl e
                          | Inr x \<Rightarrow>
                              (case Tensor_at_put (st ! output) [batch, feature] (fadd x b) of
                                 Inl e \<Rightarrow> Inl e
                               | Inr r \<Rightarrow> Inr (st[output := r])))) st) st2
      else Inl InvalidRank)"

text \<open>\<^verbatim>\<open>Tensor::operator=(const Tensor&)\<close> on the store: nothing happens when both
  references name one object.\<close>

definition copy_assign :: "store \<Rightarrow> nat \<Rightarrow> nat \<Rightarrow> error + store" where
  "copy_assign st this other =
     (if this \<noteq> other then
        case Tensor_copy (st ! other) of
          Inl e \<Rightarrow> Inl e
        | Inr c \<Rightarrow> Inr (st[this := c])
      else Inr st)"

text \<open>The activation layers: \<^verbatim>\<open>output = input\<close> (copy assignment), then the kernel in
  place on \<open>output\<close>.\<close>

definition ReLULayer_forward :: "store \<Rightarrow> nat \<Rightarrow> nat \<Rightarrow> error + store" where
  "ReLULayer_forward st input output =
     (case copy_assign st output input of
        Inl e \<Rightarrow> Inl e
      | Inr st' \<Rightarrow>
          (case relu (st' ! output) of Inl e \<Rightarrow> Inl e | Inr r \<Rightarrow> Inr (st'[output := r])))"

definition SigmoidLayer_forward :: "(f32 \<Rightarrow> f32) \<Rightarrow> store \<Rightarrow> nat \<Rightarrow> nat \<Rightarrow> error + store" where
  "SigmoidLayer_forward fexp st input output =
     (case copy_assign st output input of
        Inl e \<Rightarrow> Inl e
      | Inr st' \<Rightarrow>
          (case sigmoid fexp (st' ! output) of Inl e \<Rightarrow> Inl e | Inr r \<Rightarrow> Inr (st'[output := r])))"

definition SoftmaxLayer_forward :: "(f32 \<Rightarrow> f32) \<Rightarrow> store \<Rightarrow> nat \<Rightarrow> nat \<Rightarrow> error + store" where
  "SoftmaxLayer_forward fexp st input output =
     (case copy_assign st output input of
        Inl e \<Rightarrow> Inl e
      | Inr st' \<Rightarrow>
          (case softmax fexp (st' ! output) of Inl e \<Rightarrow> Inl e | Inr r \<Rightarrow> Inr (st'[output := r])))"

text \<open>The class hierarchy under \<^verbatim>\<open>Layer\<close> as a datatype; \<^verbatim>\<open>getType\<close> and the virtual
  \<^verbatim>\<open>forward\<close> dispatch on the variant.\<close>

datatype Layer = Linear LinearLayer | ReLU | Sigmoid | Softmax

fun getType :: "Layer \<Rightarrow> LayerType" where
  "getType (Linear _) = LINEAR"
| "getType ReLU = RELU"
| "getType Sigmoid = SIGMOID"
| "getType Softmax = SOFTMAX"

fun forward :: "(f32 \<Rightarrow> f32) \<Rightarrow> Layer \<Rightarrow> store \<Rightarrow> nat \<Rightarrow> nat \<Rightarrow> error + store" where
  "forward fexp (Linear L) st input output = LinearLayer_forward L st input output"
| "forward fexp ReLU st input output = ReLULayer_forward st input output"
| "forward fexp Sigmoid st input output = SigmoidLayer_forward fexp st input output"
| "forward fexp Softmax st input output = SoftmaxLayer_forward fexp st input output"

section \<open>Model (model_loader.h, model_loader.cpp)\<close>

record Model =
  layers :: "Layer list"
  input_shape :: "nat list"
  output_shape :: "nat list"





section \<open>ModelLoader (model_loader.cpp)\<close>






















section \<open>Inference engine (inference_engine.h, inference_engine.cpp)\<close>

text \<open>Durations are real numbers of milliseconds.\<close>

record InferenceStats =
  total_time :: real
  layer_times :: "real list"
  memory_usage_bytes :: nat

text \<open>\<^verbatim>\<open>InferenceStats{}\<close>\<close>

definition InferenceStats_default :: InferenceStats where
  "InferenceStats_default = \<lparr>total_time = 0, layer_times = [], memory_usage_bytes = 0\<rparr>"

record InferenceEngine =
  model :: Model
  profiling_enabled :: bool
  last_stats :: InferenceStats
  intermediate_tensors :: "f32 Tensor list"
  buffers_allocated :: bool

text \<open>The constructor; a null \<^verbatim>\<open>unique_ptr<Model>\<close> is \<open>None\<close>.\<close>

definition InferenceEngine_new :: "Model option \<Rightarrow> error + InferenceEngine" where
  "InferenceEngine_new m =
     (case m of
        None \<Rightarrow> Inl NullModel
      | Some mdl \<Rightarrow>
          if layers mdl = [] then Inl EmptyModel
          else if input_shape mdl = [] \<or> output_shape mdl = [] then Inl UndeclaredShapes
          else Inr \<lparr>model = mdl, profiling_enabled = False, last_stats = InferenceStats_default,
                    intermediate_tensors = [], buffers_allocated = False\<rparr>)"

definition enableProfiling :: "InferenceEngine \<Rightarrow> bool \<Rightarrow> InferenceEngine" where
  "enableProfiling E enable = E\<lparr>profiling_enabled := enable\<rparr>"

definition getLastInferenceStats :: "InferenceEngine \<Rightarrow> InferenceStats" where
  "getLastInferenceStats E = last_stats E"

text \<open>\<^verbatim>\<open>preallocateBuffers\<close> places one default tensor per layer; \<^verbatim>\<open>clearBuffers\<close>
  releases them.\<close>

definition preallocateBuffers :: "InferenceEngine \<Rightarrow> InferenceEngine" where
  "preallocateBuffers E =
     (if buffers_allocated E then E
      else E\<lparr>intermediate_tensors := replicate (length (layers (model E))) Tensor_default,
             buffers_allocated := True\<rparr>)"

definition clearBuffers :: "InferenceEngine \<Rightarrow> InferenceEngine" where
  "clearBuffers E = E\<lparr>intermediate_tensors := [], buffers_allocated := False\<rparr>"

text \<open>\<^verbatim>\<open>validateInput\<close>\<close>

definition validateInput :: "InferenceEngine \<Rightarrow> f32 Tensor \<Rightarrow> error + unit" where
  "validateInput E input =
     (let expected_shape = input_shape (model E)
      in if rank input \<noteq> length expected_shape then Inl ShapeMismatch
         else
           case for_loop [0..<length expected_shape]
                  (\<lambda>i u. if shape input ! i \<noteq> expected_shape ! i then Inl ShapeMismatch
                         else Inr u) () of
             Inl e \<Rightarrow> Inl e
           | Inr _ \<Rightarrow> if dtype input \<noteq> FLOAT32 then Inl UnsupportedDType else Inr ())"

text \<open>\<^verbatim>\<open>updateMemoryUsage\<close>: 1000000 bytes per linear layer plus four bytes per element of
  every retained intermediate tensor, summed in \<^verbatim>\<open>size_t\<close>.\<close>

definition updateMemoryUsage :: "InferenceEngine \<Rightarrow> InferenceEngine" where
  "updateMemoryUsage E =
     (let total_bytes0 =
            fold (\<lambda>layer total_bytes.
                    if getType layer = LINEAR then size_add total_bytes 1000000
                    else total_bytes)
              (layers (model E)) 0;
          total_bytes =
            fold (\<lambda>tensor total_bytes. size_add total_bytes (size_mul (total_size tensor) 4))
              (intermediate_tensors E) total_bytes0
      in E\<lparr>last_stats := (last_stats E)\<lparr>memory_usage_bytes := total_bytes\<rparr>\<rparr>)"

text \<open>The clock \<^verbatim>\<open>std::chrono::high_resolution_clock::now()\<close> is an input of the model:
  \<open>clk k\<close> is the reading of the \<open>k\<close>-th call of \<^verbatim>\<open>now()\<close> within one \<^verbatim>\<open>predict\<close>.

  The loop of \<^verbatim>\<open>executeForwardPass\<close> over the layers from position \<open>i\<close> on; the result is
  the outcome, the engine (whose \<open>layer_times\<close> the loop writes when profiling) and the
  number of clock readings taken. The locals \<^verbatim>\<open>current_input\<close> and \<^verbatim>\<open>layer_output\<close> are
  the two objects of the store on which the layer runs; \<^verbatim>\<open>layer_output\<close> is a default
  tensor at the start of every iteration (\<^verbatim>\<open>layer_output = Tensor()\<close>), and what the
  layer leaves in it is moved into \<^verbatim>\<open>current_input\<close>. A throw of a layer is rethrown with
  the position and the type of the layer. \<open>layer_times\<close> has been resized to the number
  of layers by \<^verbatim>\<open>predict\<close> whenever profiling is enabled.\<close>

fun run_layers ::
  "(f32 \<Rightarrow> f32) \<Rightarrow> (nat \<Rightarrow> real) \<Rightarrow> nat \<Rightarrow> nat \<Rightarrow> Layer list \<Rightarrow> f32 Tensor \<Rightarrow>
     InferenceEngine \<Rightarrow> (error + f32 Tensor) \<times> InferenceEngine \<times> nat" where
  "run_layers fexp clk k i [] current_input E = (Inr current_input, E, k)"
| "run_layers fexp clk k i (l # ls) current_input E =
     (let layer_start = clk k
      in case forward fexp l [current_input, Tensor_default] 0 1 of
           Inl e \<Rightarrow> (Inl (LayerExecutionError i (getType l) e), E, Suc k)
         | Inr locals \<Rightarrow>
             let layer_output = locals ! 1
             in if profiling_enabled E then
                  let layer_end = clk (Suc k);
                      E' = E\<lparr>last_stats := (last_stats E)\<lparr>layer_times :=
                               (layer_times (last_stats E))[i := layer_end - layer_start]\<rparr>\<rparr>
                  in run_layers fexp clk (Suc (Suc k)) (Suc i) ls layer_output E'
                else run_layers fexp clk (Suc k) (Suc i) ls layer_output E)"

text \<open>\<^verbatim>\<open>executeForwardPass\<close>, with the clock readings counted from \<open>k\<close>.\<close>

definition executeForwardPass ::
  "(f32 \<Rightarrow> f32) \<Rightarrow> (nat \<Rightarrow> real) \<Rightarrow> nat \<Rightarrow> InferenceEngine \<Rightarrow> f32 Tensor \<Rightarrow>
     (error + f32 Tensor) \<times> InferenceEngine \<times> nat" where
  "executeForwardPass fexp clk k E input =
     (case Tensor_copy input of
        Inl e \<Rightarrow> (Inl e, E, k)
      | Inr current_input \<Rightarrow>
          (case run_layers fexp clk k 0 (layers (model E)) current_input E of
             (Inl e, E', k') \<Rightarrow> (Inl e, E', k')
           | (Inr output, E', k') \<Rightarrow>
               if shape output \<noteq> output_shape (model E') then (Inl OutputShapeMismatch, E', k')
               else (Inr output, E', k')))"

text \<open>\<^verbatim>\<open>InferenceEngine::predict\<close>: the outcome and the engine afterwards.\<close>

definition predict ::
  "(f32 \<Rightarrow> f32) \<Rightarrow> (nat \<Rightarrow> real) \<Rightarrow> InferenceEngine \<Rightarrow> f32 Tensor \<Rightarrow>
     (error + f32 Tensor) \<times> InferenceEngine" where
  "predict fexp clk E input =
     (let start_time = clk 0;
          E1 = (if profiling_enabled E
                then E\<lparr>last_stats := InferenceStats_default\<lparr>layer_times :=
                          replicate (length (layers (model E))) 0\<rparr>\<rparr>
                else E)
      in case validateInput E1 input of
           Inl e \<Rightarrow> (Inl e, E1)
         | Inr _ \<Rightarrow>
             (case executeForwardPass fexp clk 1 E1 input of
                (Inl e, E2, k) \<Rightarrow> (Inl e, E2)
              | (Inr output, E2, k) \<Rightarrow>
                  if profiling_enabled E2 then
                    let end_time = clk k;
                        E3 = E2\<lparr>last_stats := (last_stats E2)\<lparr>total_time := end_time - start_time\<rparr>\<rparr>
                    in (Inr output, updateMemoryUsage E3)
                  else (Inr output, E2)))"

text \<open>A caller's use of one engine: a sequence of calls of its public operations.\<close>

datatype call =
    Predict "nat \<Rightarrow> real" "f32 Tensor"
  | EnableProfiling bool
  | PreallocateBuffers
  | ClearBuffers

fun apply_call :: "(f32 \<Rightarrow> f32) \<Rightarrow> InferenceEngine \<Rightarrow> call \<Rightarrow> InferenceEngine" where
  "apply_call fexp E (Predict clk input) = snd (predict fexp clk E input)"
| "apply_call fexp E (EnableProfiling enable) = enableProfiling E enable"
| "apply_call fexp E PreallocateBuffers = preallocateBuffers E"
| "apply_call fexp E ClearBuffers = clearBuffers E"

text \<open>No \<^verbatim>\<open>predict\<close> of the sequence runs while profiling is enabled.\<close>

fun never_profiled :: "(f32 \<Rightarrow> f32) \<Rightarrow> InferenceEngine \<Rightarrow> call list \<Rightarrow> bool" where
  "never_profiled fexp E [] = True"
| "never_profiled fexp E (c # cs) =
     ((case c of Predict _ _ \<Rightarrow> \<not> profiling_enabled E | _ \<Rightarrow> True) \<and>
      never_profiled fexp (apply_call fexp E c) cs)"


section \<open>Notions used in the statements\<close>

text \<open>The element in row \<open>i\<close>, column \<open>j\<close> of a rank-2 tensor, read from the row-major
  buffer.\<close>

definition elem2 :: "'a Tensor \<Rightarrow> nat \<Rightarrow> nat \<Rightarrow> 'a" where
  "elem2 t i j = data t ! (i * (shape t ! 1) + j)"

text \<open>A square rank-2 tensor with \<^verbatim>\<open>1.0f\<close> on the diagonal and \<^verbatim>\<open>0.0f\<close> elsewhere.\<close>

definition is_identity :: "f32 Tensor \<Rightarrow> bool" where
  "is_identity t \<longleftrightarrow>
     rank t = 2 \<and> shape t ! 0 = shape t ! 1 \<and>
     (\<forall>i < shape t ! 0. \<forall>j < shape t ! 1. elem2 t i j = (if i = j then Fin 1 else Fin 0))"

text \<open>Every element is a finite binary32 value.\<close>

definition all_finite :: "f32 Tensor \<Rightarrow> bool" where
  "all_finite t \<longleftrightarrow> (\<forall>x \<in> set (data t). finite32 x)"

text \<open>The real value of a finite element.\<close>

fun val :: "f32 \<Rightarrow> real" where
  "val (Fin r) = r"
| "val _ = 0"

text \<open>The sum that the innermost loop of \<^verbatim>\<open>matmul\<close> accumulates for row \<open>i\<close> of \<open>A\<close> and
  column \<open>j\<close> of \<open>B\<close>: from \<^verbatim>\<open>0.0f\<close>, in the order of \<open>k\<close>, one rounded product and one rounded
  addition per step.\<close>

definition dot32 :: "f32 Tensor \<Rightarrow> f32 Tensor \<Rightarrow> nat \<Rightarrow> nat \<Rightarrow> f32" where
  "dot32 A B i j =
     foldl (\<lambda>acc k. fadd acc (fmul (elem2 A i k) (elem2 B k j))) (Fin 0) [0..<shape A ! 1]"

text \<open>The same sum at the flat position \<open>idx\<close> of the result, on the buffers (\<open>n\<close> inner
  dimension, \<open>p\<close> columns of the result), and the invariant of the loops of \<^verbatim>\<open>matmul\<close>: the
  first \<open>c\<close> entries of the result are final.\<close>

definition mm_entry :: "f32 list \<Rightarrow> f32 list \<Rightarrow> nat \<Rightarrow> nat \<Rightarrow> nat \<Rightarrow> f32" where
  "mm_entry a b n p idx =
     foldl (\<lambda>acc k. fadd acc (fmul (a ! ((idx div p) * n + k)) (b ! (k * p + idx mod p))))
       (Fin 0) [0..<n]"

definition mm_inv :: "f32 list \<Rightarrow> f32 list \<Rightarrow> nat \<Rightarrow> nat \<Rightarrow> nat \<Rightarrow> nat \<Rightarrow> f32 Tensor \<Rightarrow> bool" where
  "mm_inv a b m n p c r \<longleftrightarrow>
     shape r = [m, p] \<and> total_size r = m * p \<and> dtype r = FLOAT32 \<and> length (data r) = m * p \<and>
     (\<forall>idx<c. data r ! idx = mm_entry a b n p idx)"

text \<open>What \<^verbatim>\<open>relu\<close> leaves in the place of an element.\<close>

definition relu_value :: "f32 \<Rightarrow> f32" where
  "relu_value x = (if flt x (Fin 0) then Fin 0 else x)"

text \<open>A finite element whose value is an integer.\<close>

definition int_valued :: "f32 \<Rightarrow> bool" where
  "int_valued x \<longleftrightarrow> (\<exists>z :: int. x = Fin (of_int z))"

text \<open>A correctly rounded exponential function on \<^verbatim>\<open>float\<close>: one function that the
  parameter \<open>fexp\<close> may be, used where a statement needs a particular one.\<close>

fun exp32 :: "f32 \<Rightarrow> f32" where
  "exp32 (Fin r) = rnd (exp r)"
| "exp32 PInf = PInf"
| "exp32 NInf = Fin 0"
| "exp32 NaN = NaN"

text \<open>The sum that \<^verbatim>\<open>forward\<close> accumulates for a rank-1 input with the elements \<open>xs\<close> and
  column \<open>j\<close> of the weight \<open>W\<close>, in binary32 and in the order of the rows of \<open>W\<close>.\<close>

definition vdot32 :: "f32 list \<Rightarrow> f32 Tensor \<Rightarrow> nat \<Rightarrow> f32" where
  "vdot32 xs W j =
     foldl (\<lambda>acc i. fadd acc (fmul (xs ! i) (elem2 W i j))) (Fin 0) [0..<shape W ! 0]"

text \<open>The maximum that \<^verbatim>\<open>softmax\<close> finds (from the first element on, with \<^verbatim>\<open>std::max\<close>) and
  the sum it accumulates (from \<^verbatim>\<open>0.0f\<close>, in the order of the elements, rounding at every
  step).\<close>

definition max32 :: "f32 list \<Rightarrow> f32" where
  "max32 d = foldl fmax (hd d) (tl d)"

definition sum32 :: "f32 list \<Rightarrow> f32" where
  "sum32 xs = foldl fadd (Fin 0) xs"

text \<open>What the statements about \<^verbatim>\<open>softmax\<close> assume of \<^verbatim>\<open>std::exp\<close>: it maps \<^verbatim>\<open>0.0f\<close> to
  \<^verbatim>\<open>1.0f\<close>, a finite argument that is not positive to a binary32 value between 0 and 1,
  and the negative infinity to \<^verbatim>\<open>0.0f\<close>.\<close>

definition exp_like :: "(f32 \<Rightarrow> f32) \<Rightarrow> bool" where
  "exp_like fexp \<longleftrightarrow>
     fexp (Fin 0) = Fin 1 \<and> fexp NInf = Fin 0 \<and>
     (\<forall>r. r \<le> 0 \<and> is_f32 r \<longrightarrow> (\<exists>s. fexp (Fin r) = Fin s \<and> is_f32 s \<and> 0 \<le> s \<and> s \<le> 1))"

section \<open>Rounding to binary32\<close>

lemma binade_range: "-126 \<le> binade x \<and> binade x \<le> 128"
proof (cases "find (\<lambda>k. \<bar>x\<bar> < 2 powi (k + 1)) [-126..127]")
  case None
  then show ?thesis by (simp add: binade_def)
next
  case (Some k)
  then have "k \<in> set [-126..127]"
    by (metis find_Some_iff nth_mem)
  with Some show ?thesis by (simp add: binade_def del: upto_rec_numeral)
qed

lemma binade_upper: "binade x \<le> 127 \<Longrightarrow> \<bar>x\<bar> < 2 powi (binade x + 1)"
proof (cases "find (\<lambda>k. \<bar>x\<bar> < 2 powi (k + 1)) [-126..127]")
  case None
  then show "binade x \<le> 127 \<Longrightarrow> ?thesis" by (simp add: binade_def)
next
  case (Some k)
  then have "\<bar>x\<bar> < 2 powi (k + 1)"
    by (metis (mono_tags, lifting) find_Some_iff)
  with Some show ?thesis by (simp add: binade_def)
qed

lemma binade_lower: "-126 < binade x \<Longrightarrow> 2 powi (binade x) \<le> \<bar>x\<bar>"
proof (cases "find (\<lambda>k. \<bar>x\<bar> < 2 powi (k + 1)) [-126..127]")
  case None
  then have "\<forall>k. -126 \<le> k \<and> k \<le> 127 \<longrightarrow> \<not> \<bar>x\<bar> < 2 powi (k + 1)"
    unfolding find_None_iff by (simp del: upto_rec_numeral)
  from this [rule_format, of 127] have "\<not> \<bar>x\<bar> < 2 powi 128" by simp
  with None show ?thesis by (simp add: binade_def)
next
  case (Some k)
  assume "-126 < binade x"
  with Some have k: "-126 < k" by (simp add: binade_def)
  from Some obtain i where i: "i < length [-126..127::int]" "k = [-126..127] ! i"
    and min: "\<forall>j<i. \<not> \<bar>x\<bar> < 2 powi ([-126..127] ! j + 1)"
    unfolding find_Some_iff by blast
  from i have ki: "k = -126 + int i" by (simp add: nth_upto del: upto_rec_numeral)
  with k have "0 < i" by simp
  then have "i - 1 < i" by simp
  with min have "\<not> \<bar>x\<bar> < 2 powi ([-126..127] ! (i - 1) + 1)" by blast
  moreover have "[-126..127] ! (i - 1) = -126 + int (i - 1)"
    using i by (simp add: nth_upto del: upto_rec_numeral)
  ultimately have "\<not> \<bar>x\<bar> < 2 powi k" using ki \<open>0 < i\<close> by (simp add: of_nat_diff)
  with Some show ?thesis by (simp add: binade_def)
qed

lemma binade_eqI:
  assumes "-126 \<le> k" "k \<le> 127" "\<bar>x\<bar> < 2 powi (k + 1)" "k = -126 \<or> 2 powi k \<le> \<bar>x\<bar>"
  shows "binade x = k"
proof (rule ccontr)
  assume ne: "binade x \<noteq> k"
  show False
  proof (cases "binade x < k")
    case True
    then have "binade x \<le> 127" using assms by simp
    then have "\<bar>x\<bar> < 2 powi (binade x + 1)" by (rule binade_upper)
    also have "\<dots> \<le> 2 powi k" using True by (intro power_int_increasing) auto
    finally have "\<bar>x\<bar> < 2 powi k" .
    moreover have "k \<noteq> -126" using True binade_range [of x] by simp
    ultimately show False using assms(4) by simp
  next
    case False
    with ne have gt: "k < binade x" by simp
    then have "-126 < binade x" using assms by simp
    then have "2 powi (binade x) \<le> \<bar>x\<bar>" by (rule binade_lower)
    moreover have "(2::real) powi (k + 1) \<le> 2 powi (binade x)"
      using gt by (intro power_int_increasing) auto
    ultimately show False using assms(3) by simp
  qed
qed

lemma binade_128: "2 ^ 128 \<le> \<bar>x\<bar> \<Longrightarrow> binade x = 128"
proof -
  assume a: "2 ^ 128 \<le> \<bar>x\<bar>"
  have "\<not> binade x \<le> 127"
  proof
    assume b: "binade x \<le> 127"
    then have "\<bar>x\<bar> < 2 powi (binade x + 1)" by (rule binade_upper)
    also have "\<dots> \<le> 2 powi 128" using b by (intro power_int_increasing) auto
    finally show False using a by simp
  qed
  then show ?thesis using binade_range [of x] by simp
qed

lemma binade_minus [simp]: "binade (- x) = binade x"
  by (simp add: binade_def)

lemma binade_abs [simp]: "binade \<bar>x\<bar> = binade x"
  by (simp add: binade_def)

lemma quantum_pos [simp]: "0 < quantum x"
  by (simp add: quantum_def)

lemma quantum_minus [simp]: "quantum (- x) = quantum x"
  by (simp add: quantum_def)

lemma binade_mono: "\<bar>x\<bar> \<le> \<bar>y\<bar> \<Longrightarrow> binade x \<le> binade y"
proof (rule ccontr)
  assume le: "\<bar>x\<bar> \<le> \<bar>y\<bar>" and "\<not> binade x \<le> binade y"
  then have gt: "binade y < binade x" by simp
  then have "-126 < binade x" using binade_range [of y] by simp
  then have "2 powi (binade x) \<le> \<bar>x\<bar>" by (rule binade_lower)
  moreover have "binade y \<le> 127" using gt binade_range [of x] by simp
  then have "\<bar>y\<bar> < 2 powi (binade y + 1)" by (rule binade_upper)
  moreover have "(2::real) powi (binade y + 1) \<le> 2 powi (binade x)"
    using gt by (intro power_int_increasing) auto
  ultimately show False using le by simp
qed

lemma round_even_of_int [simp]: "round_even (of_int n) = n"
  by (simp add: round_even_def)

lemma round_even_bounds: "\<bar>of_int (round_even y) - y\<bar> \<le> 1 / 2"
  unfolding round_even_def Let_def
  by (auto simp: abs_le_iff; linarith)

lemma round_even_mono: "x \<le> y \<Longrightarrow> round_even x \<le> round_even y"
proof -
  assume le: "x \<le> y"
  have fl: "\<lfloor>x\<rfloor> \<le> \<lfloor>y\<rfloor>" using le by (rule floor_mono)
  show ?thesis
  proof (cases "\<lfloor>x\<rfloor> = \<lfloor>y\<rfloor>")
    case True
    then show ?thesis using le unfolding round_even_def Let_def by auto
  next
    case False
    with fl have "\<lfloor>x\<rfloor> + 1 \<le> \<lfloor>y\<rfloor>" by simp
    moreover have "round_even x \<le> \<lfloor>x\<rfloor> + 1" unfolding round_even_def Let_def by auto
    moreover have "\<lfloor>y\<rfloor> \<le> round_even y" unfolding round_even_def Let_def by auto
    ultimately show ?thesis by linarith
  qed
qed

lemma round_even_minus: "round_even (- y) = - round_even y"
proof (cases "y \<in> \<int>")
  case True
  then obtain n where "y = of_int n" by (auto elim: Ints_cases)
  then show ?thesis by (simp flip: of_int_minus)
next
  case False
  then have ne: "y \<noteq> of_int \<lfloor>y\<rfloor>" by (metis Ints_of_int)
  then have fl: "\<lfloor>- y\<rfloor> = - \<lfloor>y\<rfloor> - 1"
    by (simp add: floor_minus ceiling_altdef)
  have lt: "of_int \<lfloor>y\<rfloor> < y" using ne of_int_floor_le [of y] by linarith
  show ?thesis
    unfolding round_even_def Let_def fl using lt
    by (auto simp: algebra_simps)
qed

lemma quantum_nonneg [simp]: "0 \<le> quantum x"
  using quantum_pos [of x] by linarith

lemma quantum_ne0 [simp]: "quantum x \<noteq> 0"
  using quantum_pos [of x] by linarith

lemma powi_split: "(2::real) powi (a + b) = 2 powi a * 2 powi b"
  by (simp add: power_int_add)

lemma powi_shift: "(2::real) powi (a - int n) * 2 ^ n = 2 powi a"
proof -
  have "(2::real) powi (a - int n) * 2 powi (int n) = 2 powi ((a - int n) + int n)"
    by (rule powi_split [symmetric])
  then show ?thesis by simp
qed

lemma quantum_24: "quantum x * 2 ^ 24 = 2 powi (binade x + 1)"
proof -
  have "(2::real) powi ((binade x + 1) - int 24) * 2 ^ 24 = 2 powi (binade x + 1)"
    by (rule powi_shift)
  moreover have "(binade x + 1) - int 24 = binade x - 23" by simp
  ultimately show ?thesis by (simp add: quantum_def)
qed

lemma quantum_23: "quantum x * 2 ^ 23 = 2 powi (binade x)"
  using powi_shift [of "binade x" 23] by (simp add: quantum_def)

lemma round_real_minus: "round_real (- x) = - round_real x"
  by (simp add: round_real_def round_even_minus)

lemma round_even_0 [simp]: "round_even 0 = 0"
  using round_even_of_int [of 0] by simp

lemma round_real_0 [simp]: "round_real 0 = 0"
  by (simp add: round_real_def)

lemma round_real_nonneg: "0 \<le> x \<Longrightarrow> 0 \<le> round_real x"
proof -
  assume "0 \<le> x"
  then have "0 \<le> x / quantum x" by simp
  then have "round_even 0 \<le> round_even (x / quantum x)" by (rule round_even_mono)
  then have "0 \<le> round_even (x / quantum x)" using round_even_of_int [of 0] by simp
  then show ?thesis by (simp add: round_real_def)
qed

lemma round_real_upper:
  assumes "0 \<le> x" "binade x \<le> 127"
  shows "round_real x \<le> 2 powi (binade x + 1)"
proof -
  have q: "quantum x * 2 ^ 24 = 2 powi (binade x + 1)" by (rule quantum_24)
  have "x < 2 powi (binade x + 1)" using binade_upper [OF assms(2)] assms(1) by simp
  then have "x / quantum x \<le> 2 ^ 24"
    using q by (simp add: field_simps)
  then have "round_even (x / quantum x) \<le> round_even (of_int (2 ^ 24))"
    by (intro round_even_mono) simp
  then have "round_even (x / quantum x) \<le> 2 ^ 24" by (simp only: round_even_of_int)
  then have "real_of_int (round_even (x / quantum x)) \<le> 2 ^ 24"
    by (metis of_int_le_iff of_int_numeral of_int_power)
  then have "round_real x \<le> 2 ^ 24 * quantum x"
    unfolding round_real_def by (intro mult_right_mono) auto
  then show ?thesis using q by (simp add: mult.commute)
qed

lemma round_real_lower:
  assumes "0 \<le> x" "-126 < binade x"
  shows "2 powi (binade x) \<le> round_real x"
proof -
  have q: "quantum x * 2 ^ 23 = 2 powi (binade x)" by (rule quantum_23)
  have "2 powi (binade x) \<le> x" using binade_lower [OF assms(2)] assms(1) by simp
  then have "2 ^ 23 \<le> x / quantum x"
    using q by (simp add: field_simps)
  then have "round_even (of_int (2 ^ 23)) \<le> round_even (x / quantum x)"
    by (intro round_even_mono) simp
  then have "2 ^ 23 \<le> round_even (x / quantum x)" by (simp only: round_even_of_int)
  then have "2 ^ 23 \<le> real_of_int (round_even (x / quantum x))"
    by (metis of_int_le_iff of_int_numeral of_int_power)
  then have "2 ^ 23 * quantum x \<le> round_real x"
    unfolding round_real_def by (intro mult_right_mono) auto
  then show ?thesis using q by (simp add: mult.commute)
qed

lemma round_real_mono_pos:
  assumes "0 \<le> x" "x \<le> y"
  shows "round_real x \<le> round_real y"
proof -
  have y: "0 \<le> y" using assms by simp
  have "binade x \<le> binade y" using assms by (intro binade_mono) simp
  then consider "binade x = binade y" | "binade x < binade y" by linarith
  then show ?thesis
  proof cases
    case 1
    then have q: "quantum x = quantum y" by (simp add: quantum_def)
    have "x / quantum y \<le> y / quantum y" using assms by (simp add: divide_right_mono)
    then have "round_even (x / quantum y) \<le> round_even (y / quantum y)" by (rule round_even_mono)
    then show ?thesis unfolding round_real_def q by (intro mult_right_mono) auto
  next
    case 2
    then have "binade x \<le> 127" "-126 < binade y" using binade_range [of x] binade_range [of y] by auto
    then have "round_real x \<le> 2 powi (binade x + 1)" "2 powi (binade y) \<le> round_real y"
      using round_real_upper round_real_lower assms y by auto
    moreover have "(2::real) powi (binade x + 1) \<le> 2 powi (binade y)"
      using 2 by (intro power_int_increasing) auto
    ultimately show ?thesis by linarith
  qed
qed

lemma round_real_mono: "x \<le> y \<Longrightarrow> round_real x \<le> round_real y"
proof -
  assume le: "x \<le> y"
  consider "0 \<le> x" | "x < 0" "0 \<le> y" | "y < 0" by linarith
  then show ?thesis
  proof cases
    case 1
    then show ?thesis using le by (rule round_real_mono_pos)
  next
    case 2
    have "0 \<le> round_real (- x)" using 2 by (intro round_real_nonneg) simp
    then have "round_real x \<le> 0" by (simp add: round_real_minus)
    moreover have "0 \<le> round_real y" using 2 by (intro round_real_nonneg)
    ultimately show ?thesis by simp
  next
    case 3
    then have "round_real (- y) \<le> round_real (- x)" using le by (intro round_real_mono_pos) auto
    then show ?thesis by (simp add: round_real_minus)
  qed
qed

lemma round_real_error: "\<bar>round_real x - x\<bar> \<le> quantum x / 2"
proof -
  have "\<bar>of_int (round_even (x / quantum x)) - x / quantum x\<bar> \<le> 1 / 2"
    by (rule round_even_bounds)
  then have "\<bar>of_int (round_even (x / quantum x)) - x / quantum x\<bar> * quantum x \<le> 1 / 2 * quantum x"
    by (intro mult_right_mono) auto
  moreover have "\<bar>of_int (round_even (x / quantum x)) - x / quantum x\<bar> * quantum x
                 = \<bar>round_real x - x\<bar>"
  proof -
    have "\<bar>of_int (round_even (x / quantum x)) - x / quantum x\<bar> * quantum x
          = \<bar>(of_int (round_even (x / quantum x)) - x / quantum x) * quantum x\<bar>"
      by (simp add: abs_mult)
    also have "(of_int (round_even (x / quantum x)) - x / quantum x) * quantum x = round_real x - x"
      using quantum_pos [of x] by (simp add: round_real_def field_simps)
    finally show ?thesis .
  qed
  ultimately show ?thesis by simp
qed

lemma round_real_exact: "x = of_int m * quantum x \<Longrightarrow> round_real x = x"
proof -
  assume x: "x = of_int m * quantum x"
  then have "x / quantum x = of_int m" using quantum_pos [of x] by (simp add: field_simps)
  then show ?thesis using x by (simp add: round_real_def)
qed

lemma round_real_dyadic:
  assumes "\<bar>m\<bar> \<le> 2 ^ 24" "-149 \<le> e"
  shows "round_real (of_int m * 2 powi e) = of_int m * 2 powi e"
proof -
  define x :: real where "x = of_int m * 2 powi e"
  define k where "k = binade x"
  have absx: "\<bar>x\<bar> = of_int \<bar>m\<bar> * 2 powi e" by (simp add: x_def abs_mult)
  have mle: "real_of_int \<bar>m\<bar> \<le> 2 ^ 24"
    using assms(1) by (metis of_int_le_iff of_int_numeral of_int_power)
  have xle: "\<bar>x\<bar> \<le> 2 powi (e + 24)"
  proof -
    have "\<bar>x\<bar> \<le> 2 ^ 24 * 2 powi e" unfolding absx using mle by (intro mult_right_mono) auto
    also have "\<dots> = 2 powi (e + 24)" by (subst power_int_add) auto
    finally show ?thesis .
  qed
  have kle: "k \<le> e + 24 \<or> k = -126"
  proof (cases "k = -126")
    case False
    then have "-126 < binade x" using binade_range [of x] by (simp add: k_def)
    then have "2 powi k \<le> \<bar>x\<bar>" unfolding k_def by (rule binade_lower)
    with xle have "(2::real) powi k \<le> 2 powi (e + 24)" by simp
    then have "k \<le> e + 24"
      by (metis (no_types, opaque_lifting) linorder_not_less one_less_numeral_iff power_int_strict_increasing semiring_norm(76))
    then show ?thesis ..
  qed simp
  show ?thesis
  proof (cases "k \<le> e + 23")
    case True
    define j where "j = nat (e + 23 - k)"
    have "(2::real) powi e = 2 powi (int j + (k - 23))" using True by (simp add: j_def)
    also have "\<dots> = 2 ^ j * 2 powi (k - 23)" by (subst power_int_add) auto
    finally have "x = of_int (m * 2 ^ j) * quantum x"
      by (simp add: x_def quantum_def k_def)
    then show ?thesis unfolding x_def [symmetric] by (rule round_real_exact)
  next
    case False
    with kle have "k = e + 24 \<or> (k = -126 \<and> e + 23 < k)" by auto
    with assms(2) have k: "k = e + 24" by auto
    have "-126 < binade x" using k assms(2) by (simp add: k_def)
    then have "2 powi k \<le> \<bar>x\<bar>" unfolding k_def by (rule binade_lower)
    with xle k have "\<bar>x\<bar> = 2 powi (e + 24)" by simp
    then have "of_int \<bar>m\<bar> * 2 powi e = (2::real) ^ 24 * 2 powi e"
      unfolding absx by (subst (asm) power_int_add) auto
    then have "real_of_int \<bar>m\<bar> = 2 ^ 24" by simp
    then have "\<bar>m\<bar> = 2 ^ 24" by (metis of_int_eq_iff of_int_numeral of_int_power)
    then have "even m" by (metis even_abs_add_iff even_add even_numeral even_power zero_less_numeral)
    then obtain h where h: "m = 2 * h" by (elim evenE)
    have "(2::real) powi (e + 1) = 2 * 2 powi e" by (simp add: powi_split)
    then have "x = of_int h * 2 powi (e + 1)" by (simp add: x_def h)
    moreover have "k - 23 = e + 1" using k by simp
    then have "quantum x = 2 powi (e + 1)" by (simp only: quantum_def k_def [symmetric])
    ultimately have "x = of_int h * quantum x" by simp
    then show ?thesis unfolding x_def [symmetric] by (rule round_real_exact)
  qed
qed

lemma round_real_of_int: "\<bar>n\<bar> \<le> 2 ^ 24 \<Longrightarrow> round_real (of_int n) = of_int n"
  using round_real_dyadic [of n 0] by simp

lemma binade_powi: "-126 \<le> j \<Longrightarrow> j \<le> 128 \<Longrightarrow> binade (2 powi j) = j"
proof (cases "j = 128")
  case True
  then show ?thesis using binade_128 [of "2 powi 128"] by simp
next
  case False
  assume "-126 \<le> j" "j \<le> 128"
  with False show ?thesis
    by (intro binade_eqI) (auto intro!: power_int_strict_increasing)
qed

lemma round_real_idem: "round_real (round_real x) = round_real x"
proof -
  have pos: "round_real (round_real x) = round_real x" if x: "0 \<le> x" for x
  proof -
    define k where "k = binade x"
    define r where "r = round_real x"
    define m where "m = round_even (x / quantum x)"
    have r: "r = of_int m * 2 powi (k - 23)" by (simp add: r_def m_def round_real_def quantum_def k_def)
    have r0: "0 \<le> r" unfolding r_def using x by (rule round_real_nonneg)
    show ?thesis
    proof (cases "binade r = k")
      case True
      then have "r = of_int m * quantum r" using r by (simp add: quantum_def)
      then show ?thesis unfolding r_def [symmetric] by (rule round_real_exact)
    next
      case False
      have up: "k \<le> 127 \<Longrightarrow> r \<le> 2 powi (k + 1)"
        unfolding r_def k_def using x by (intro round_real_upper)
      have lo: "-126 < k \<Longrightarrow> 2 powi k \<le> r"
        unfolding r_def k_def using x by (intro round_real_lower)
      have k128: "k \<noteq> 128"
      proof
        assume "k = 128"
        with lo have "2 ^ 128 \<le> \<bar>r\<bar>" using r0 by simp
        then have "binade r = 128" by (rule binade_128)
        with False \<open>k = 128\<close> show False by simp
      qed
      then have k127: "k \<le> 127" using binade_range [of x] by (simp add: k_def)
      have eq: "r = 2 powi (k + 1)"
      proof (rule ccontr)
        assume "r \<noteq> 2 powi (k + 1)"
        with up k127 have "\<bar>r\<bar> < 2 powi (k + 1)" using r0 by simp
        moreover have "k = -126 \<or> 2 powi k \<le> \<bar>r\<bar>"
        proof (cases "k = -126")
          case False
          then have "-126 < k" using binade_range [of x] by (simp add: k_def)
          then show ?thesis using lo r0 by simp
        qed simp
        ultimately have "binade r = k" using k127 binade_range [of x]
          by (intro binade_eqI) (auto simp: k_def)
        with False show False by simp
      qed
      have "binade r = k + 1" unfolding eq using k127 binade_range [of x]
        by (intro binade_powi) (auto simp: k_def)
      moreover have "(2::real) powi (k + 1) = 2 ^ 23 * 2 powi (k + 1 - 23)"
        using powi_shift [of "k + 1" 23] by (simp add: mult.commute)
      ultimately have "r = of_int (2 ^ 23) * quantum r"
        using eq by (simp add: quantum_def)
      then show ?thesis unfolding r_def [symmetric] by (rule round_real_exact)
    qed
  qed
  show ?thesis
  proof (cases "0 \<le> x")
    case True
    then show ?thesis by (rule pos)
  next
    case False
    then have "round_real (round_real (- x)) = round_real (- x)" by (intro pos) simp
    then show ?thesis by (simp add: round_real_minus)
  qed
qed

lemma round_real_eval:
  assumes "-126 \<le> k" "k \<le> 127" "\<bar>x\<bar> < 2 powi (k + 1)" "k = -126 \<or> 2 powi k \<le> \<bar>x\<bar>"
  shows "round_real x = of_int (round_even (x / 2 powi (k - 23))) * 2 powi (k - 23)"
  using binade_eqI [OF assms] by (simp add: round_real_def quantum_def)

lemma zero_f32_Fin [simp]: "(0 :: f32) = Fin 0"
  by (simp add: zero_f32_def)

lemma is_f32_iff: "is_f32 r \<longleftrightarrow> round_real r = r \<and> \<bar>r\<bar> < 2 ^ 128"
  by (auto simp: is_f32_def rnd_def Let_def)

lemma rnd_is_f32: "rnd x = Fin r \<Longrightarrow> is_f32 r"
proof -
  assume "rnd x = Fin r"
  then have "r = round_real x" "\<bar>round_real x\<bar> < 2 ^ 128"
    by (auto simp: rnd_def Let_def split: if_splits)
  then show ?thesis by (simp add: is_f32_iff round_real_idem)
qed

lemma is_f32_dyadic:
  assumes "\<bar>m\<bar> \<le> 2 ^ 24" "-149 \<le> e" "e \<le> 103"
  shows "is_f32 (of_int m * 2 powi e)"
proof -
  have "real_of_int \<bar>m\<bar> \<le> 2 ^ 24"
    using assms(1) by (metis of_int_le_iff of_int_numeral of_int_power)
  then have "real_of_int \<bar>m\<bar> * 2 powi e \<le> 2 ^ 24 * 2 powi e"
    by (intro mult_right_mono) auto
  also have "\<dots> = 2 powi (e + 24)" by (simp add: powi_split mult.commute)
  also have "\<dots> < 2 powi 128" using assms(3) by (intro power_int_strict_increasing) auto
  finally have "\<bar>of_int m * 2 powi e\<bar> < (2::real) ^ 128" by (simp add: abs_mult)
  then show ?thesis
    using round_real_dyadic [OF assms(1,2)] by (simp only: is_f32_iff simp_thms)
qed

lemma is_f32_of_int: "\<bar>n\<bar> \<le> 2 ^ 24 \<Longrightarrow> is_f32 (of_int n)"
  using is_f32_dyadic [of n 0] by simp

lemma is_f32_0 [simp]: "is_f32 0"
  using is_f32_of_int [of 0] by simp

lemma is_f32_1 [simp]: "is_f32 1"
  using is_f32_of_int [of 1] by simp

lemma rnd_0 [simp]: "rnd 0 = Fin 0"
  using is_f32_0 by (simp add: is_f32_def)

lemma rnd_1 [simp]: "rnd 1 = Fin 1"
  using is_f32_1 by (simp add: is_f32_def)

lemma rnd_of_nat: "n \<le> 2 ^ 24 \<Longrightarrow> rnd (of_nat n) = Fin (of_nat n)"
  using is_f32_of_int [of "int n"] by (simp add: is_f32_def)

lemma rnd_numeral [simp]:
  "numeral n \<le> (16777216 :: nat) \<Longrightarrow> rnd (numeral n) = Fin (numeral n)"
  using rnd_of_nat [of "numeral n"] by simp

lemma is_f32_minus [simp]: "is_f32 (- r) \<longleftrightarrow> is_f32 r"
  by (auto simp: is_f32_iff round_real_minus)

text \<open>Rounding is monotone; stated against a binary32 bound on either side.\<close>

lemma rnd_bounds:
  assumes "lo \<le> x" "x \<le> hi" "is_f32 lo" "is_f32 hi"
  shows "\<exists>r. rnd x = Fin r \<and> lo \<le> r \<and> r \<le> hi \<and> is_f32 r"
proof -
  have lo: "lo \<le> round_real x"
    using round_real_mono [OF assms(1)] assms(3) by (simp add: is_f32_iff)
  have hi: "round_real x \<le> hi"
    using round_real_mono [OF assms(2)] assms(4) by (simp add: is_f32_iff)
  have "\<bar>lo\<bar> < 2 ^ 128" "\<bar>hi\<bar> < 2 ^ 128" using assms(3,4) by (simp_all add: is_f32_iff)
  with lo hi have "\<bar>round_real x\<bar> < 2 ^ 128" by linarith
  then have r: "rnd x = Fin (round_real x)" by (simp add: rnd_def)
  then show ?thesis using lo hi rnd_is_f32 [OF r] by simp
qed

lemma rnd_eval:
  assumes "-126 \<le> k" "k \<le> 127" "\<bar>x\<bar> < 2 powi (k + 1)" "k = -126 \<or> 2 powi k \<le> \<bar>x\<bar>"
    and "r = of_int (round_even (x / 2 powi (k - 23))) * 2 powi (k - 23)"
    and "\<bar>r\<bar> < 2 ^ 128"
  shows "rnd x = Fin r"
  using round_real_eval [OF assms(1-4)] assms(5,6) by (simp add: rnd_def)

section \<open>Arithmetic in \<^verbatim>\<open>size_t\<close>\<close>

lemma foldl_size_mul:
  "foldl (\<lambda>acc d. size_mul acc d) (a mod 2 ^ 64) s = (a * prod_list s) mod 2 ^ 64"
proof (induction s arbitrary: a)
  case Nil
  show ?case by simp
next
  case (Cons d s)
  have "size_mul (a mod 2 ^ 64) d = (a * d) mod 2 ^ 64"
    by (simp add: size_mul_def mod_mult_left_eq)
  then show ?case
    using Cons.IH [of "a * d"] by (simp add: mult.assoc)
qed

lemma calculateTotalSize_prod: "calculateTotalSize s = prod_list s mod 2 ^ 64"
  using foldl_size_mul [of 1 s] by (simp add: calculateTotalSize_def)

lemma calculateTotalSize_fits: "prod_list s < 2 ^ 64 \<Longrightarrow> calculateTotalSize s = prod_list s"
  by (simp add: calculateTotalSize_prod)

lemma for_loop_append:
  "for_loop (xs @ ys) body s =
     (case for_loop xs body s of Inl e \<Rightarrow> Inl e | Inr s' \<Rightarrow> for_loop ys body s')"
  by (induction xs arbitrary: s) (simp_all split: sum.splits)

lemma for_loop_check:
  "for_loop js (\<lambda>i u. if P i then Inl e else Inr u) () =
     (if \<exists>i\<in>set js. P i then Inl e else Inr ())"
  by (induction js) simp_all

lemma check_bounds_eq:
  "check_bounds s indices =
     (if \<exists>i<length indices. indices ! i \<ge> s ! i then Inl OutOfRange else Inr ())"
  by (simp add: check_bounds_def for_loop_check Bex_def)

text \<open>The loop of \<^verbatim>\<open>calculateIndex\<close> computes, modulo \<open>2 ^ 64\<close>, what the same loop computes
  without reduction.\<close>

lemma linearize_wrap:
  "fold (\<lambda>i (index, multiplier).
           (size_add index (size_mul (idx ! i) multiplier), size_mul multiplier (s ! i)))
     js (a mod 2 ^ 64, b mod 2 ^ 64) =
   (fst (fold (\<lambda>i (index, multiplier). (index + idx ! i * multiplier, multiplier * s ! i))
           js (a, b)) mod 2 ^ 64,
    snd (fold (\<lambda>i (index, multiplier). (index + idx ! i * multiplier, multiplier * s ! i))
           js (a, b)) mod 2 ^ 64)"
proof (induction js arbitrary: a b)
  case Nil
  show ?case by simp
next
  case (Cons j js)
  have 1: "size_add (a mod 2 ^ 64) (size_mul (idx ! j) (b mod 2 ^ 64)) = (a + idx ! j * b) mod 2 ^ 64"
    by (simp add: size_add_def size_mul_def mod_simps)
  have 2: "size_mul (b mod 2 ^ 64) (s ! j) = (b * s ! j) mod 2 ^ 64"
    by (simp add: size_mul_def mod_simps)
  show ?case
    by (simp only: fold_simps o_apply prod.case 1 2 Cons.IH)
qed

lemma linearize_fold:
  assumes "k \<le> n"
  shows "foldr (\<lambda>i (index, multiplier). (index + idx ! i * multiplier, multiplier * s ! i))
           [k..<n] (0, 1) =
         (\<Sum>i = k..<n. idx ! i * (\<Prod>j = Suc i..<n. s ! j), \<Prod>j = k..<n. (s ! j :: nat))"
  using assms
proof (induction rule: inc_induct)
  case base
  show ?case by simp
next
  case (step m)
  have eq: "[m..<n] = m # [Suc m..<n]"
    using step.hyps by (simp add: upt_conv_Cons)
  have "{m..<n} = insert m {Suc m..<n}"
    using step.hyps by auto
  then show ?case
    by (simp only: eq foldr.simps o_apply step.IH)
       (simp add: add.commute mult.commute)
qed

lemma prod_list_drop_nth:
  "prod_list (drop k s) = (\<Prod>j = k..<length s. s ! j)" for s :: "nat list"
proof -
  have "prod_list (drop k s) = (\<Prod>i = 0..<length s - k. s ! (k + i))"
    by (simp add: prod.list_conv_set_nth)
  also have "\<dots> = (\<Prod>j = k..<length s. s ! j)"
  proof (cases "k \<le> length s")
    case True
    then show ?thesis
      using prod.shift_bounds_nat_ivl [of "\<lambda>j. s ! j" 0 k "length s - k"]
      by (simp add: add.commute)
  next
    case False
    then show ?thesis by simp
  qed
  finally show ?thesis .
qed

lemma linearize_row_major:
  assumes "length indices = length s"
  shows "linearize s indices =
           (\<Sum>i<length indices. indices ! i * prod_list (drop (Suc i) s)) mod 2 ^ 64"
proof -
  have "linearize s indices =
          fst (fold (\<lambda>i (index, multiplier). (index + indices ! i * multiplier, multiplier * s ! i))
                 (rev [0..<length indices]) (0, 1)) mod 2 ^ 64"
    unfolding linearize_def
    using linearize_wrap [of indices s "rev [0..<length indices]" 0 1] by simp
  also have "\<dots> = (\<Sum>i = 0..<length indices. indices ! i * (\<Prod>j = Suc i..<length indices. s ! j))
                     mod 2 ^ 64"
    by (simp only: foldr_conv_fold [symmetric] linearize_fold [OF le0] fst_conv)
  finally show ?thesis
    using assms by (simp add: prod_list_drop_nth atLeast0LessThan)
qed

lemma row_major_bound:
  assumes "k \<le> n" and "\<forall>i<n. idx ! i < s ! i"
  shows "(\<Sum>i = k..<n. idx ! i * (\<Prod>j = Suc i..<n. s ! j)) < (\<Prod>j = k..<n. (s ! j :: nat))"
  using assms(1)
proof (induction rule: inc_induct)
  case base
  show ?case by simp
next
  case (step m)
  let ?M = "\<Prod>j = Suc m..<n. s ! j"
  let ?R = "\<Sum>i = Suc m..<n. idx ! i * (\<Prod>j = Suc i..<n. s ! j)"
  have "idx ! m < s ! m" using assms(2) step.hyps by simp
  then have "Suc (idx ! m) * ?M \<le> s ! m * ?M"
    by (intro mult_le_mono1) simp
  moreover have "idx ! m * ?M + ?R < Suc (idx ! m) * ?M"
    using step.IH by simp
  ultimately show ?case
    using step.hyps
    by (simp add: sum.atLeast_Suc_lessThan prod.atLeast_Suc_lessThan)
qed

lemma row_major_less:
  fixes s indices :: "nat list"
  assumes "length indices = length s" and "\<forall>i<length indices. indices ! i < s ! i"
  shows "(\<Sum>i<length indices. indices ! i * prod_list (drop (Suc i) s)) < prod_list s"
proof -
  have "(\<Sum>i<length indices. indices ! i * prod_list (drop (Suc i) s)) =
          (\<Sum>i = 0..<length indices. indices ! i * (\<Prod>j = Suc i..<length indices. s ! j))"
    using assms(1) by (simp add: prod_list_drop_nth atLeast0LessThan)
  also have "\<dots> < (\<Prod>j = 0..<length indices. s ! j)"
    using assms(2) by (intro row_major_bound) simp_all
  also have "\<dots> = prod_list s"
    using assms(1) prod_list_drop_nth [of 0 s] by simp
  finally show ?thesis .
qed

section \<open>Element access\<close>

lemma calculateIndex_ok:
  assumes "length indices = length (shape t)"
    and "\<forall>i<length indices. indices ! i < shape t ! i"
  shows "calculateIndex t indices =
           Inr ((\<Sum>i<length indices. indices ! i * prod_list (drop (Suc i) (shape t))) mod 2 ^ 64)"
  using assms
  by (auto simp: calculateIndex_def check_bounds_eq linearize_row_major)

lemma calculateIndex_fits:
  assumes "length indices = length (shape t)"
    and "\<forall>i<length indices. indices ! i < shape t ! i"
    and "prod_list (shape t) < 2 ^ 64"
  shows "calculateIndex t indices =
           Inr (\<Sum>i<length indices. indices ! i * prod_list (drop (Suc i) (shape t)))"
proof -
  have "(\<Sum>i<length indices. indices ! i * prod_list (drop (Suc i) (shape t))) < 2 ^ 64"
    using row_major_less [OF assms(1,2)] assms(3) by simp
  then show ?thesis using calculateIndex_ok [OF assms(1,2)] by simp
qed




section \<open>Move and reshape\<close>



text \<open>
  Claim C3 at the failing input: the tensor built by \<^verbatim>\<open>Tensor({1})\<close> holds one element;
  \<^verbatim>\<open>reshape({})\<close> passes the only check of \<^verbatim>\<open>reshape\<close> (the empty product is 1) and leaves
  the tensor with an empty shape, which \<^verbatim>\<open>validateShape\<close> rejects in the constructors.
\<close>

theorem reshape_to_empty_shape:
  "Tensor_new [1] FLOAT32 = Inr \<lparr>shape = [1], total_size = 1, dtype = FLOAT32, data = [Fin 0]\<rparr> \<and>
   reshape \<lparr>shape = [1], total_size = 1, dtype = FLOAT32, data = [Fin 0]\<rparr> [] =
     Inr \<lparr>shape = [], total_size = 1, dtype = FLOAT32, data = [Fin 0]\<rparr> \<and>
   \<not> tensor_inv \<lparr>shape = [], total_size = 1, dtype = FLOAT32, data = [Fin 0]\<rparr>"
  by (simp add: Tensor_new_def validateShape_def calculateTotalSize_def size_mul_def reshape_def
      tensor_inv_def)

section \<open>Counted loops\<close>

lemma for_loop_invariant:
  assumes "I 0 s"
    and "\<And>i s. i < n \<Longrightarrow> I i s \<Longrightarrow> \<exists>s'. body i s = Inr s' \<and> I (Suc i) s'"
  shows "\<exists>s'. for_loop [0..<n] body s = Inr s' \<and> I n s'"
  using assms(2)
proof (induction n)
  case 0
  show ?case using assms(1) by simp
next
  case (Suc n)
  from Suc.IH Suc.prems obtain s1 where s1: "for_loop [0..<n] body s = Inr s1" "I n s1"
    by (meson less_Suc_eq)
  from Suc.prems [of n s1] s1(2) obtain s2 where s2: "body n s1 = Inr s2" "I (Suc n) s2"
    by auto
  show ?case
    using s1(1) s2 by (simp add: for_loop_append)
qed

lemma for_loop_pointwise:
  assumes "n \<le> length d"
    and "\<And>i d'. i < n \<Longrightarrow> length d' = length d \<Longrightarrow> d' ! i = d ! i \<Longrightarrow>
           body i d' = Inr (d'[i := g (d ! i)])"
  shows "for_loop [0..<n] body d = Inr (map g (take n d) @ drop n d)"
proof -
  have "\<exists>s'. for_loop [0..<n] body d = Inr s' \<and> s' = map g (take n d) @ drop n d"
  proof (rule for_loop_invariant [where I = "\<lambda>i s. i \<le> n \<longrightarrow> s = map g (take i d) @ drop i d"
        and n = n and s = d and body = body, THEN exE])
    show "0 \<le> n \<longrightarrow> d = map g (take 0 d) @ drop 0 d" by simp
  next
    fix i s
    assume i: "i < n" and inv: "i \<le> n \<longrightarrow> s = map g (take i d) @ drop i d"
    then have s: "s = map g (take i d) @ drop i d" by simp
    have il: "i < length d" using i assms(1) by simp
    have len: "length s = length d" using il by (simp add: s)
    have nth: "s ! i = d ! i" using il by (simp add: s nth_append)
    have "s[i := g (d ! i)] = map g (take (Suc i) d) @ drop (Suc i) d"
      using il
      by (simp add: s list_update_append take_Suc_conv_app_nth Cons_nth_drop_Suc [symmetric])
    then show "\<exists>s'. body i s = Inr s' \<and> (Suc i \<le> n \<longrightarrow> s' = map g (take (Suc i) d) @ drop (Suc i) d)"
      using assms(2) [OF i len nth] by simp
  next
    fix s'
    assume "for_loop [0..<n] body d = Inr s' \<and> (n \<le> n \<longrightarrow> s' = map g (take n d) @ drop n d)"
    then show ?thesis by simp
  qed
  then show ?thesis by auto
qed

section \<open>ReLU\<close>

lemma relu_value_simps [simp]:
  "relu_value (Fin r) = Fin (max 0 r)" "relu_value PInf = PInf"
  "relu_value NInf = Fin 0" "relu_value NaN = NaN"
  by (simp_all add: relu_value_def max_def)

lemma relu_value_idem [simp]: "relu_value (relu_value x) = relu_value x"
  by (cases x) simp_all

lemma relu_ok:
  assumes "total_size t \<le> length (data t)"
  shows "relu t = Inr (t\<lparr>data := map relu_value (take (total_size t) (data t)) @ drop (total_size t) (data t)\<rparr>)"
proof -
  have "for_loop [0..<total_size t] (\<lambda>i d.
             case deref d i of
               Inl e \<Rightarrow> Inl e
             | Inr x \<Rightarrow> if flt x (Fin 0) then assign d i (Fin 0) else Inr d) (data t)
        = Inr (map relu_value (take (total_size t) (data t)) @ drop (total_size t) (data t))"
  proof (rule for_loop_pointwise [OF assms])
    fix i d'
    assume "i < total_size t" "length d' = length (data t)" "d' ! i = data t ! i"
    then show "(case deref d' i of Inl e \<Rightarrow> Inl e
         | Inr x \<Rightarrow> if flt x (Fin 0) then assign d' i (Fin 0) else Inr d') =
           Inr (d'[i := relu_value (data t ! i)])"
      using assms by (auto simp: deref_def assign_def relu_value_def) (metis list_update_id)
  qed
  then show ?thesis by (simp add: relu_def)
qed

lemma relu_overrun:
  assumes "\<not> total_size t \<le> length (data t)"
  shows "relu t = Inl BufferOverrun"
proof -
  let ?body = "\<lambda>i d. case deref d i of
               Inl e \<Rightarrow> Inl e
             | Inr x \<Rightarrow> if flt x (Fin 0) then assign d i (Fin 0) else Inr d"
  let ?n = "length (data t)"
  have "[0..<total_size t] = [0..<?n] @ [?n..<total_size t]"
    using assms upt_add_eq_append [of 0 ?n "total_size t - ?n"] by simp
  then have split: "[0..<total_size t] = [0..<?n] @ ?n # [Suc ?n..<total_size t]"
    using assms by (simp add: upt_conv_Cons)
  have "for_loop [0..<?n] ?body (data t) = Inr (map relu_value (take ?n (data t)) @ drop ?n (data t))"
  proof (rule for_loop_pointwise [OF order_refl])
    fix i d'
    assume "i < ?n" "length d' = length (data t)" "d' ! i = data t ! i"
    then show "?body i d' = Inr (d'[i := relu_value (data t ! i)])"
      by (auto simp: deref_def assign_def relu_value_def) (metis list_update_id)
  qed
  then have "for_loop [0..<total_size t] ?body (data t) = Inl BufferOverrun"
    by (simp add: split for_loop_append deref_def)
  then show ?thesis by (simp add: relu_def)
qed

text \<open>
  Claim C9. \<^verbatim>\<open>relu\<close> is idempotent: for every tensor, running \<^verbatim>\<open>relu\<close> on the outcome
  of \<^verbatim>\<open>relu\<close> gives the outcome of the first run (also when the first run leaves the
  buffer, which both sides then do); and on a tensor whose buffer has \<open>total_size\<close>
  elements \<^verbatim>\<open>relu\<close> returns the tensor with every element \<open>x\<close> replaced by what the
  comparison \<^verbatim>\<open>x < 0.0f\<close> selects: \<open>max 0 x\<close> for a finite \<open>x\<close>, \<^verbatim>\<open>0.0f\<close> for the negative
  infinity, and \<open>x\<close> itself for the positive infinity and for NaN.
\<close>

theorem relu_idempotent:
  "(case relu T of Inl e \<Rightarrow> Inl e | Inr T' \<Rightarrow> relu T') = relu T \<and>
   (length (data T) = total_size T \<longrightarrow> relu T = Inr (T\<lparr>data := map relu_value (data T)\<rparr>)) \<and>
   relu_value (Fin r) = Fin (max 0 r) \<and> relu_value NInf = Fin 0 \<and>
   relu_value PInf = PInf \<and> relu_value NaN = NaN"
proof (cases "total_size T \<le> length (data T)")
  case True
  let ?T' = "T\<lparr>data := map relu_value (take (total_size T) (data T)) @ drop (total_size T) (data T)\<rparr>"
  have 1: "relu T = Inr ?T'" by (rule relu_ok [OF True])
  have "relu ?T' = Inr (?T'\<lparr>data := map relu_value (take (total_size ?T') (data ?T')) @
           drop (total_size ?T') (data ?T')\<rparr>)"
    using True by (intro relu_ok) simp
  also have "\<dots> = Inr ?T'"
  proof -
    have "relu_value \<circ> relu_value = relu_value" by (auto simp: fun_eq_iff)
    then show ?thesis using True by simp
  qed
  finally show ?thesis using 1 by simp
next
  case False
  then show ?thesis by (simp add: relu_overrun)
qed

theorem relu_idempotent_witness:
  "relu \<lparr>shape = [3], total_size = 3, dtype = FLOAT32, data = [Fin (- 1), Fin 0, Fin 2]\<rparr> =
     Inr \<lparr>shape = [3], total_size = 3, dtype = FLOAT32, data = [Fin 0, Fin 0, Fin 2]\<rparr> \<and>
   relu \<lparr>shape = [3], total_size = 3, dtype = FLOAT32, data = [Fin 0, Fin 0, Fin 2]\<rparr> =
     Inr \<lparr>shape = [3], total_size = 3, dtype = FLOAT32, data = [Fin 0, Fin 0, Fin 2]\<rparr>"
proof -
  let ?T = "\<lparr>shape = [3], total_size = 3, dtype = FLOAT32, data = [Fin (- 1), Fin 0, Fin 2]\<rparr>"
  have once: "relu ?T = Inr \<lparr>shape = [3], total_size = 3, dtype = FLOAT32, data = [Fin 0, Fin 0, Fin 2]\<rparr>"
    using relu_idempotent [of ?T] by simp
  have "(case relu ?T of Inl e \<Rightarrow> Inl e | Inr T' \<Rightarrow> relu T') = relu ?T"
    using relu_idempotent [of ?T] by blast
  with once show ?thesis by simp
qed

section \<open>Matrix multiplication\<close>

lemma index2_less:
  fixes i j m p :: nat
  assumes "i < m" "j < p"
  shows "i * p + j < m * p"
proof -
  have "i * p + j < i * p + p" using assms(2) by simp
  also have "\<dots> = Suc i * p" by simp
  also have "\<dots> \<le> m * p" using assms(1) by (intro mult_le_mono1) simp
  finally show ?thesis .
qed

lemma calculateIndex2:
  assumes "shape t = [m, n]" "i < m" "k < n" "m * n < 2 ^ 64"
  shows "calculateIndex t [i, k] = Inr (i * n + k)"
proof -
  have "\<forall>x<length [i, k]. [i, k] ! x < shape t ! x"
    using assms by (simp add: less_Suc_eq)
  then have "calculateIndex t [i, k] =
      Inr (\<Sum>x<length [i, k]. [i, k] ! x * prod_list (drop (Suc x) (shape t)))"
    using assms(1,4) by (intro calculateIndex_fits) simp_all
  then show ?thesis
    using assms(1) by (simp add: lessThan_Suc)
qed

lemma Tensor_at2:
  assumes "shape t = [m, n]" "length (data t) = m * n" "m * n < 2 ^ 64" "i < m" "k < n"
  shows "Tensor_at t [i, k] = Inr (data t ! (i * n + k))"
  using assms index2_less [of i m k n]
  by (simp add: Tensor_at_def calculateIndex2 deref_def)

lemma Tensor_at_put2:
  assumes "shape t = [m, n]" "length (data t) = m * n" "m * n < 2 ^ 64" "i < m" "k < n"
  shows "Tensor_at_put t [i, k] v = Inr (t\<lparr>data := (data t)[i * n + k := v]\<rparr>)"
  using assms index2_less [of i m k n]
  by (simp add: Tensor_at_put_def calculateIndex2 assign_def)

lemma for_loop_foldl:
  assumes "\<And>k acc. k < n \<Longrightarrow> body k acc = Inr (g acc k)"
  shows "for_loop [0..<n] body a = Inr (foldl g a [0..<n])"
  using assms
proof (induction n)
  case 0
  show ?case by simp
next
  case (Suc n)
  then show ?case by (simp add: for_loop_append)
qed

lemma Tensor_new_ok:
  assumes "s \<noteq> []" "\<forall>d\<in>set s. d \<noteq> 0" "prod_list s < 2 ^ 64"
  shows "Tensor_new s dt = Inr \<lparr>shape = s, total_size = prod_list s, dtype = dt,
           data = replicate (prod_list s) 0\<rparr>"
  using assms
  by (auto simp: Tensor_new_def validateShape_def list_ex_iff calculateTotalSize_fits Let_def)

lemma matmul_inner:
  assumes A: "shape A = [m, n]" "length (data A) = m * n" "m * n < 2 ^ 64"
    and B: "shape B = [n, p]" "length (data B) = n * p" "n * p < 2 ^ 64"
    and ij: "i < m" "j < p"
  shows "for_loop [0..<n] (\<lambda>k acc.
           case Tensor_at A [i, k] of
             Inl e \<Rightarrow> Inl e
           | Inr a \<Rightarrow>
               (case Tensor_at B [k, j] of
                  Inl e \<Rightarrow> Inl e
                | Inr b \<Rightarrow> Inr (fadd acc (fmul a b)))) (Fin 0)
         = Inr (mm_entry (data A) (data B) n p (i * p + j))"
proof -
  have "for_loop [0..<n] (\<lambda>k acc.
           case Tensor_at A [i, k] of
             Inl e \<Rightarrow> Inl e
           | Inr a \<Rightarrow>
               (case Tensor_at B [k, j] of
                  Inl e \<Rightarrow> Inl e
                | Inr b \<Rightarrow> Inr (fadd acc (fmul a b)))) (Fin 0)
        = Inr (foldl (\<lambda>acc k. fadd acc (fmul (data A ! (i * n + k)) (data B ! (k * p + j))))
                 (Fin 0) [0..<n])"
    by (rule for_loop_foldl) (simp add: Tensor_at2 [OF A] Tensor_at2 [OF B] ij)
  then show ?thesis
    using ij by (simp add: mm_entry_def)
qed

lemma matmul_row:
  fixes st :: store
  assumes A: "shape (st ! t1) = [m, n]" "length (data (st ! t1)) = m * n" "m * n < 2 ^ 64"
    and B: "shape (st ! t2) = [n, p]" "length (data (st ! t2)) = n * p" "n * p < 2 ^ 64"
    and refs: "t1 < length st" "t2 < length st" "res < length st" "res \<noteq> t1" "res \<noteq> t2"
    and mp: "m * p < 2 ^ 64"
    and i: "i < m"
    and inv: "mm_inv (data (st ! t1)) (data (st ! t2)) m n p (i * p) r"
  shows "\<exists>r'. for_loop [0..<p] (\<lambda>j st.
                        case for_loop [0..<n] (\<lambda>k acc.
                               case Tensor_at (st ! t1) [i, k] of
                                 Inl e \<Rightarrow> Inl e
                               | Inr a \<Rightarrow>
                                   (case Tensor_at (st ! t2) [k, j] of
                                      Inl e \<Rightarrow> Inl e
                                    | Inr b \<Rightarrow> Inr (fadd acc (fmul a b)))) (Fin 0) of
                          Inl e \<Rightarrow> Inl e
                        | Inr acc \<Rightarrow>
                            (case Tensor_at_put (st ! res) [i, j] acc of
                               Inl e \<Rightarrow> Inl e
                             | Inr r \<Rightarrow> Inr (st[res := r]))) (st[res := r]) = Inr (st[res := r']) \<and>
          mm_inv (data (st ! t1)) (data (st ! t2)) m n p (Suc i * p) r'"
proof -
  let ?a = "data (st ! t1)" and ?b = "data (st ! t2)"
  let ?body = "\<lambda>j (st :: store).
                        case for_loop [0..<n] (\<lambda>k acc.
                               case Tensor_at (st ! t1) [i, k] of
                                 Inl e \<Rightarrow> Inl e
                               | Inr a \<Rightarrow>
                                   (case Tensor_at (st ! t2) [k, j] of
                                      Inl e \<Rightarrow> Inl e
                                    | Inr b \<Rightarrow> Inr (fadd acc (fmul a b)))) (Fin 0) of
                          Inl e \<Rightarrow> Inl e
                        | Inr acc \<Rightarrow>
                            (case Tensor_at_put (st ! res) [i, j] acc of
                               Inl e \<Rightarrow> Inl e
                             | Inr r \<Rightarrow> Inr (st[res := r]))"
  have "\<exists>s'. for_loop [0..<p] ?body (st[res := r]) = Inr s' \<and>
          (\<exists>r'. s' = st[res := r'] \<and> mm_inv ?a ?b m n p (i * p + p) r')"
  proof (rule for_loop_invariant
      [where I = "\<lambda>j s. \<exists>r'. s = st[res := r'] \<and> mm_inv ?a ?b m n p (i * p + j) r'"])
    show "\<exists>r'. st[res := r] = st[res := r'] \<and> mm_inv ?a ?b m n p (i * p + 0) r'"
      using inv by auto
  next
    fix j s
    assume j: "j < p" and "\<exists>r'. s = st[res := r'] \<and> mm_inv ?a ?b m n p (i * p + j) r'"
    then obtain r1 where s: "s = st[res := r1]" and r1: "mm_inv ?a ?b m n p (i * p + j) r1"
      by blast
    have s1: "s ! t1 = st ! t1" and s2: "s ! t2 = st ! t2" and sr: "s ! res = r1"
      using refs by (simp_all add: s)
    have sh: "shape r1 = [m, p]" "length (data r1) = m * p"
      using r1 by (simp_all add: mm_inv_def)
    let ?r2 = "r1\<lparr>data := (data r1)[i * p + j := mm_entry ?a ?b n p (i * p + j)]\<rparr>"
    have "mm_inv ?a ?b m n p (i * p + Suc j) ?r2"
      using r1 index2_less [OF i j]
      by (auto simp: mm_inv_def nth_list_update less_Suc_eq)
    moreover have "s[res := ?r2] = st[res := ?r2]" by (simp add: s)
    moreover have "?body j s = Inr (s[res := ?r2])"
      unfolding s1 s2 sr
      by (simp add: matmul_inner [OF A B i j] Tensor_at_put2 [OF sh mp i j])
    ultimately show "\<exists>s'. ?body j s = Inr s' \<and>
        (\<exists>r'. s' = st[res := r'] \<and> mm_inv ?a ?b m n p (i * p + Suc j) r')"
      by blast
  qed
  then show ?thesis by (auto simp: add.commute)
qed

lemma matmul_ok:
  fixes st :: store
  assumes A: "shape (st ! t1) = [m, n]" "length (data (st ! t1)) = m * n" "m * n < 2 ^ 64"
    and B: "shape (st ! t2) = [n, p]" "length (data (st ! t2)) = n * p" "n * p < 2 ^ 64"
    and refs: "t1 < length st" "t2 < length st" "res < length st" "res \<noteq> t1" "res \<noteq> t2"
    and mp: "m * p < 2 ^ 64"
    and pos: "0 < m" "0 < p"
  shows "matmul st t1 t2 res =
           Inr (st[res := \<lparr>shape = [m, p], total_size = m * p, dtype = FLOAT32,
                  data = map (mm_entry (data (st ! t1)) (data (st ! t2)) n p) [0..<m * p]\<rparr>])"
proof -
  let ?a = "data (st ! t1)" and ?b = "data (st ! t2)"
  let ?r0 = "\<lparr>shape = [m, p], total_size = m * p, dtype = FLOAT32,
           data = replicate (m * p) (Fin 0)\<rparr>"
  let ?row = "\<lambda>i (st :: store).
                      for_loop [0..<p] (\<lambda>j st.
                        case for_loop [0..<n] (\<lambda>k acc.
                               case Tensor_at (st ! t1) [i, k] of
                                 Inl e \<Rightarrow> Inl e
                               | Inr a \<Rightarrow>
                                   (case Tensor_at (st ! t2) [k, j] of
                                      Inl e \<Rightarrow> Inl e
                                    | Inr b \<Rightarrow> Inr (fadd acc (fmul a b)))) (Fin 0) of
                          Inl e \<Rightarrow> Inl e
                        | Inr acc \<Rightarrow>
                            (case Tensor_at_put (st ! res) [i, j] acc of
                               Inl e \<Rightarrow> Inl e
                             | Inr r \<Rightarrow> Inr (st[res := r]))) st"
  have new: "Tensor_new [m, p] FLOAT32 = Inr ?r0"
    using pos mp by (simp add: Tensor_new_ok)
  have "\<exists>s'. for_loop [0..<m] ?row (st[res := ?r0]) = Inr s' \<and>
          (\<exists>r'. s' = st[res := r'] \<and> mm_inv ?a ?b m n p (m * p) r')"
  proof (rule for_loop_invariant
      [where I = "\<lambda>i s. \<exists>r'. s = st[res := r'] \<and> mm_inv ?a ?b m n p (i * p) r'"])
    show "\<exists>r'. st[res := ?r0] = st[res := r'] \<and> mm_inv ?a ?b m n p (0 * p) r'"
      by (intro exI [of _ ?r0]) (simp add: mm_inv_def)
  next
    fix i s
    assume i: "i < m" and "\<exists>r'. s = st[res := r'] \<and> mm_inv ?a ?b m n p (i * p) r'"
    then obtain r1 where s: "s = st[res := r1]" and r1: "mm_inv ?a ?b m n p (i * p) r1"
      by blast
    from matmul_row [OF A B refs mp i r1]
    show "\<exists>s'. ?row i s = Inr s' \<and> (\<exists>r'. s' = st[res := r'] \<and> mm_inv ?a ?b m n p (Suc i * p) r')"
      unfolding s by blast
  qed
  then obtain r' where r': "for_loop [0..<m] ?row (st[res := ?r0]) = Inr (st[res := r'])"
    and inv: "mm_inv ?a ?b m n p (m * p) r'"
    by blast
  have "data r' = map (mm_entry ?a ?b n p) [0..<m * p]"
    using inv by (intro nth_equalityI) (simp_all add: mm_inv_def)
  then have "r' = \<lparr>shape = [m, p], total_size = m * p, dtype = FLOAT32,
           data = map (mm_entry ?a ?b n p) [0..<m * p]\<rparr>"
    using inv by (cases r') (simp add: mm_inv_def)
  then show ?thesis
    using A(1) B(1) new r' by (simp add: matmul_def rank_def Let_def)
qed

lemma rank2_shape: "rank t = 2 \<Longrightarrow> shape t = [shape t ! 0, shape t ! 1]"
  by (cases "shape t"; cases "tl (shape t)"; cases "tl (tl (shape t))") (auto simp: rank_def)

lemma tensor_inv_rank2:
  assumes "tensor_inv t" "shape t = [m, n]"
  shows "0 < m" "0 < n" "length (data t) = m * n" "total_size t = m * n"
  using assms by (auto simp: tensor_inv_def)

lemma matmul_rank_error:
  "rank (st ! t1) \<noteq> 2 \<or> rank (st ! t2) \<noteq> 2 \<Longrightarrow> matmul st t1 t2 res = Inl MatmulRank"
  by (simp add: matmul_def)

lemma matmul_dimension_error:
  "rank (st ! t1) = 2 \<Longrightarrow> rank (st ! t2) = 2 \<Longrightarrow> shape (st ! t1) ! 1 \<noteq> shape (st ! t2) ! 0 \<Longrightarrow>
   matmul st t1 t2 res = Inl DimensionMismatch"
  by (simp add: matmul_def Let_def)

lemma finite32_iff: "finite32 x \<longleftrightarrow> (\<exists>r. x = Fin r \<and> is_f32 r)"
  by (cases x) simp_all

lemma fmul_one_right: "is_f32 x \<Longrightarrow> fmul (Fin x) (Fin 1) = Fin x"
  by (simp add: is_f32_def)

lemma fmul_one_left: "is_f32 x \<Longrightarrow> fmul (Fin 1) (Fin x) = Fin x"
  by (simp add: is_f32_def)

lemma fmul_zero_right [simp]: "fmul (Fin x) (Fin 0) = Fin 0"
  by simp

lemma fmul_zero_left [simp]: "fmul (Fin 0) (Fin x) = Fin 0"
  by simp

lemma fadd_zero_right: "is_f32 x \<Longrightarrow> fadd (Fin x) (Fin 0) = Fin x"
  by (simp add: is_f32_def)

lemma fadd_zero_left: "is_f32 x \<Longrightarrow> fadd (Fin 0) (Fin x) = Fin x"
  by (simp add: is_f32_def)

lemma rnd_Ints: "s \<in> \<int> \<Longrightarrow> \<bar>s\<bar> \<le> 2 ^ 24 \<Longrightarrow> rnd s = Fin s"
proof -
  assume "s \<in> \<int>" and le: "\<bar>s\<bar> \<le> 2 ^ 24"
  then obtain z :: int where s: "s = of_int z" by (auto elim: Ints_cases)
  with le have "real_of_int \<bar>z\<bar> \<le> 2 ^ 24" by simp
  then have "\<bar>z\<bar> \<le> 2 ^ 24" by (metis of_int_le_iff of_int_numeral of_int_power)
  then show ?thesis using is_f32_of_int [of z] by (simp add: s is_f32_def)
qed

lemma rnd_16777217: "rnd 16777217 = Fin 16777216"
  by (rule rnd_eval [of 24]) (simp_all add: round_even_def)

text \<open>Multiplying by an identity matrix in binary32: every product is the element or
  \<^verbatim>\<open>0.0f\<close>, and the additions of \<^verbatim>\<open>0.0f\<close> leave a finite sum as it is.\<close>

lemma mm_entry_right_identity:
  assumes idx: "idx < m * n"
    and B: "\<forall>k<n. \<forall>j<n. b ! (k * n + j) = (if k = j then Fin 1 else Fin 0)"
    and fin: "\<forall>k<n. finite32 (a ! ((idx div n) * n + k))"
  shows "mm_entry a b n n idx = a ! idx"
proof -
  let ?g = "\<lambda>acc k. fadd acc (fmul (a ! ((idx div n) * n + k)) (b ! (k * n + idx mod n)))"
  have n: "0 < n" using idx by (cases n) simp_all
  then have j: "idx mod n < n" by simp
  have "c \<le> n \<Longrightarrow> foldl ?g (Fin 0) [0..<c] =
          (if idx mod n < c then a ! ((idx div n) * n + idx mod n) else Fin 0)" for c
  proof (induction c)
    case 0
    show ?case by simp
  next
    case (Suc c)
    then have c: "c < n" by simp
    from fin c obtain x where x: "a ! ((idx div n) * n + c) = Fin x" "is_f32 x"
      by (auto simp: finite32_iff)
    from fin j obtain y where y: "a ! ((idx div n) * n + idx mod n) = Fin y" "is_f32 y"
      by (auto simp: finite32_iff)
    have b: "b ! (c * n + idx mod n) = (if c = idx mod n then Fin 1 else Fin 0)"
      using B c j by simp
    show ?case
      using Suc c x y
      by (auto simp: b is_f32_def less_Suc_eq)
  qed
  from this [of n] show ?thesis
    using j by (simp add: mm_entry_def)
qed

lemma mm_entry_left_identity:
  assumes idx: "idx < n * p"
    and A: "\<forall>i<n. \<forall>k<n. a ! (i * n + k) = (if i = k then Fin 1 else Fin 0)"
    and fin: "\<forall>k<n. finite32 (b ! (k * p + idx mod p))"
  shows "mm_entry a b n p idx = b ! idx"
proof -
  let ?g = "\<lambda>acc k. fadd acc (fmul (a ! ((idx div p) * n + k)) (b ! (k * p + idx mod p)))"
  have p: "0 < p" using idx by (cases p) simp_all
  have i: "idx div p < n" using idx p by (simp add: less_mult_imp_div_less mult.commute)
  have "c \<le> n \<Longrightarrow> foldl ?g (Fin 0) [0..<c] =
          (if idx div p < c then b ! ((idx div p) * p + idx mod p) else Fin 0)" for c
  proof (induction c)
    case 0
    show ?case by simp
  next
    case (Suc c)
    then have c: "c < n" by simp
    from fin c obtain x where x: "b ! (c * p + idx mod p) = Fin x" "is_f32 x"
      by (auto simp: finite32_iff)
    from fin i obtain y where y: "b ! ((idx div p) * p + idx mod p) = Fin y" "is_f32 y"
      by (auto simp: finite32_iff)
    have a: "a ! ((idx div p) * n + c) = (if idx div p = c then Fin 1 else Fin 0)"
      using A c i by simp
    show ?case
      using Suc c x y
      by (auto simp: a is_f32_def less_Suc_eq)
  qed
  from this [of n] show ?thesis
    using i by (simp add: mm_entry_def)
qed

text \<open>On integer values the accumulated sum is exact as long as the sum of the magnitudes
  of the products stays within \<open>2 ^ 24\<close>.\<close>

lemma foldl_dot_exact:
  fixes x y :: "nat \<Rightarrow> f32"
  assumes int: "\<forall>k<n. int_valued (x k) \<and> int_valued (y k)"
    and small: "(\<Sum>k<n. \<bar>val (x k) * val (y k)\<bar>) \<le> 2 ^ 24"
  shows "foldl (\<lambda>acc k. fadd acc (fmul (x k) (y k))) (Fin 0) [0..<n] =
           Fin (\<Sum>k<n. val (x k) * val (y k))"
proof -
  have "c \<le> n \<Longrightarrow> foldl (\<lambda>acc k. fadd acc (fmul (x k) (y k))) (Fin 0) [0..<c] =
           Fin (\<Sum>k<c. val (x k) * val (y k))" for c
  proof (induction c)
    case 0
    show ?case by simp
  next
    case (Suc c)
    then have c: "c < n" by simp
    from int c obtain u v :: int where u: "x c = Fin (of_int u)" and v: "y c = Fin (of_int v)"
      by (auto simp: int_valued_def)
    have ints: "val (x k) * val (y k) \<in> \<int>" if "k < n" for k
      using int that by (auto simp: int_valued_def)
    have mono: "(\<Sum>k<Suc c. \<bar>val (x k) * val (y k)\<bar>) \<le> (\<Sum>k<n. \<bar>val (x k) * val (y k)\<bar>)"
      using c by (intro sum_mono2) auto
    have "\<bar>val (x c) * val (y c)\<bar> \<le> (\<Sum>k<Suc c. \<bar>val (x k) * val (y k)\<bar>)"
      by (simp add: sum_nonneg)
    with mono small have "\<bar>val (x c) * val (y c)\<bar> \<le> 2 ^ 24" by linarith
    then have prod: "rnd (val (x c) * val (y c)) = Fin (val (x c) * val (y c))"
      using ints [OF c] by (intro rnd_Ints)
    have "\<bar>\<Sum>k<Suc c. val (x k) * val (y k)\<bar> \<le> (\<Sum>k<Suc c. \<bar>val (x k) * val (y k)\<bar>)"
      by (rule sum_abs)
    with mono small have "\<bar>\<Sum>k<Suc c. val (x k) * val (y k)\<bar> \<le> 2 ^ 24" by linarith
    moreover have "(\<Sum>k<Suc c. val (x k) * val (y k)) \<in> \<int>"
      using c by (intro Ints_sum ints) simp
    ultimately have "rnd (\<Sum>k<Suc c. val (x k) * val (y k)) = Fin (\<Sum>k<Suc c. val (x k) * val (y k))"
      by (intro rnd_Ints)
    then show ?case
      using Suc c prod by (simp add: u v)
  qed
  from this [of n] show ?thesis by simp
qed

lemma is_f32_numeral [simp]: "numeral n \<le> (16777216 :: nat) \<Longrightarrow> is_f32 (numeral n)"
  by (simp add: is_f32_def)

text \<open>
  Claim C1, as stated, fails in three ways. (1) The sum is accumulated in binary32: for
  \<open>A = [[16777216, 1]]\<close> and \<open>B = [[1], [1]]\<close> the result is \<open>[[16777216]]\<close>, while
  \<open>16777216 * 1 + 1 * 1 = 16777217\<close>. (2) An identity operand does not return an infinite
  element's row unchanged: \<open>[[\<infinity>, 1], [2, 3]]\<close> times the identity is
  \<open>[[\<infinity>, NaN], [2, 3]]\<close>, because \<open>\<infinity> * 0\<close> is NaN. (3) When \<open>result\<close> is the object of an
  operand, the operand is overwritten by the zero tensor before it is read:
  \<^verbatim>\<open>matmul(A, B, A)\<close> with \<open>A = [[2]]\<close>, \<open>B = [[3]]\<close> leaves \<open>[[0]]\<close> in \<open>A\<close>, not \<open>[[6]]\<close>.
\<close>

theorem matmul_counterexample:
  "matmul [\<lparr>shape = [1, 2], total_size = 2, dtype = FLOAT32, data = [Fin 16777216, Fin 1]\<rparr>,
           \<lparr>shape = [2, 1], total_size = 2, dtype = FLOAT32, data = [Fin 1, Fin 1]\<rparr>,
           Tensor_default] 0 1 2 =
     Inr [\<lparr>shape = [1, 2], total_size = 2, dtype = FLOAT32, data = [Fin 16777216, Fin 1]\<rparr>,
          \<lparr>shape = [2, 1], total_size = 2, dtype = FLOAT32, data = [Fin 1, Fin 1]\<rparr>,
          \<lparr>shape = [1, 1], total_size = 1, dtype = FLOAT32, data = [Fin 16777216]\<rparr>] \<and>
   Fin (16777216 * 1 + 1 * 1) \<noteq> Fin 16777216 \<and>
   matmul [\<lparr>shape = [2, 2], total_size = 4, dtype = FLOAT32, data = [PInf, Fin 1, Fin 2, Fin 3]\<rparr>,
           \<lparr>shape = [2, 2], total_size = 4, dtype = FLOAT32, data = [Fin 1, Fin 0, Fin 0, Fin 1]\<rparr>,
           Tensor_default] 0 1 2 =
     Inr [\<lparr>shape = [2, 2], total_size = 4, dtype = FLOAT32, data = [PInf, Fin 1, Fin 2, Fin 3]\<rparr>,
          \<lparr>shape = [2, 2], total_size = 4, dtype = FLOAT32, data = [Fin 1, Fin 0, Fin 0, Fin 1]\<rparr>,
          \<lparr>shape = [2, 2], total_size = 4, dtype = FLOAT32, data = [PInf, NaN, Fin 2, Fin 3]\<rparr>] \<and>
   matmul [\<lparr>shape = [1, 1], total_size = 1, dtype = FLOAT32, data = [Fin 2]\<rparr>,
           \<lparr>shape = [1, 1], total_size = 1, dtype = FLOAT32, data = [Fin 3]\<rparr>] 0 1 0 =
     Inr [\<lparr>shape = [1, 1], total_size = 1, dtype = FLOAT32, data = [Fin 0]\<rparr>,
          \<lparr>shape = [1, 1], total_size = 1, dtype = FLOAT32, data = [Fin 3]\<rparr>]"
proof -
  let ?A1 = "\<lparr>shape = [1, 2], total_size = 2, dtype = FLOAT32, data = [Fin 16777216, Fin 1]\<rparr>"
  let ?B1 = "\<lparr>shape = [2, 1], total_size = 2, dtype = FLOAT32, data = [Fin 1, Fin 1]\<rparr>"
  let ?A2 = "\<lparr>shape = [2, 2], total_size = 4, dtype = FLOAT32, data = [PInf, Fin 1, Fin 2, Fin 3]\<rparr>"
  let ?I2 = "\<lparr>shape = [2, 2], total_size = 4, dtype = FLOAT32, data = [Fin 1, Fin 0, Fin 0, Fin 1]\<rparr>"
  let ?A3 = "\<lparr>shape = [1, 1], total_size = 1, dtype = FLOAT32, data = [Fin 2]\<rparr>"
  let ?B3 = "\<lparr>shape = [1, 1], total_size = 1, dtype = FLOAT32, data = [Fin 3]\<rparr>"
  have 1: "matmul [?A1, ?B1, Tensor_default] 0 1 2 =
     Inr [?A1, ?B1, \<lparr>shape = [1, 1], total_size = 1, dtype = FLOAT32, data = [Fin 16777216]\<rparr>]"
    by (subst matmul_ok [where m = 1 and n = 2 and p = 1])
       (simp_all add: mm_entry_def upt_conv_Cons rnd_16777217)
  have 2: "matmul [?A2, ?I2, Tensor_default] 0 1 2 =
     Inr [?A2, ?I2, \<lparr>shape = [2, 2], total_size = 4, dtype = FLOAT32, data = [PInf, NaN, Fin 2, Fin 3]\<rparr>]"
    by (subst matmul_ok [where m = 2 and n = 2 and p = 2])
       (simp_all add: mm_entry_def upt_conv_Cons)
  have idx: "calculateIndex t [0, 0] = Inr 0" if "shape t = [1, 1]" for t :: "f32 Tensor"
    using calculateIndex2 [of t 1 1 0 0] that by simp
  have 3: "matmul [?A3, ?B3] 0 1 0 =
     Inr [\<lparr>shape = [1, 1], total_size = 1, dtype = FLOAT32, data = [Fin 0]\<rparr>, ?B3]"
    by (simp add: matmul_def rank_def Tensor_new_def validateShape_def calculateTotalSize_def
        size_mul_def Tensor_at_def Tensor_at_put_def idx deref_def assign_def Let_def)
  from 1 2 3 show ?thesis by simp
qed

text \<open>
  Claim C1, amended. \<^verbatim>\<open>matmul\<close> fails (the rank error) unless both operands have rank 2, and
  fails with \<open>DimensionMismatch\<close> when the ranks are 2 and \<open>A.shape[1] \<noteq> B.shape[0]\<close>.
  Otherwise, for operands \<open>A\<close> and \<open>B\<close> that satisfy the tensor invariants, with sizes and a
  number of result elements \<open>A.shape[0] * B.shape[1]\<close> below \<open>2 ^ 64\<close>, and for a \<open>result\<close>
  that is an object distinct from both operands, \<open>result\<close> becomes a tensor \<open>C\<close> of shape
  \<open>[A.shape[0], B.shape[1]]\<close>, itself satisfying the invariants, and nothing else changes.
  \<open>C[i,j]\<close>, as read through \<^verbatim>\<open>at\<close>, is the binary32 sum accumulated from \<^verbatim>\<open>0.0f\<close> in the order
  of \<open>k\<close> over the rounded products \<open>A[i,k] * B[k,j]\<close>; it is the exact \<open>\<Sum>k. A[i,k] * B[k,j]\<close>
  when the elements involved are integers and the magnitudes of the products sum to at most
  \<open>2 ^ 24\<close>. When one operand is an identity matrix and the elements of the other operand
  are finite, \<open>C\<close> has the shape and the elements of the other operand.
\<close>

theorem matmul_correct:
  "(rank (st ! tensor1) \<noteq> 2 \<or> rank (st ! tensor2) \<noteq> 2 \<longrightarrow>
      matmul st tensor1 tensor2 result = Inl MatmulRank) \<and>
   (rank (st ! tensor1) = 2 \<and> rank (st ! tensor2) = 2 \<and>
    shape (st ! tensor1) ! 1 \<noteq> shape (st ! tensor2) ! 0 \<longrightarrow>
      matmul st tensor1 tensor2 result = Inl DimensionMismatch) \<and>
   (tensor1 < length st \<and> tensor2 < length st \<and> result < length st \<and>
    result \<noteq> tensor1 \<and> result \<noteq> tensor2 \<and>
    tensor_inv (st ! tensor1) \<and> tensor_inv (st ! tensor2) \<and>
    rank (st ! tensor1) = 2 \<and> rank (st ! tensor2) = 2 \<and>
    shape (st ! tensor1) ! 1 = shape (st ! tensor2) ! 0 \<and>
    total_size (st ! tensor1) < 2 ^ 64 \<and> total_size (st ! tensor2) < 2 ^ 64 \<and>
    shape (st ! tensor1) ! 0 * shape (st ! tensor2) ! 1 < 2 ^ 64 \<longrightarrow>
      (\<exists>C. matmul st tensor1 tensor2 result = Inr (st[result := C]) \<and>
           shape C = [shape (st ! tensor1) ! 0, shape (st ! tensor2) ! 1] \<and>
           dtype C = FLOAT32 \<and> tensor_inv C \<and>
           (\<forall>i< shape (st ! tensor1) ! 0. \<forall>k< shape (st ! tensor1) ! 1.
              Tensor_at (st ! tensor1) [i, k] = Inr (elem2 (st ! tensor1) i k)) \<and>
           (\<forall>k< shape (st ! tensor2) ! 0. \<forall>j< shape (st ! tensor2) ! 1.
              Tensor_at (st ! tensor2) [k, j] = Inr (elem2 (st ! tensor2) k j)) \<and>
           (\<forall>i< shape (st ! tensor1) ! 0. \<forall>j< shape (st ! tensor2) ! 1.
              Tensor_at C [i, j] = Inr (dot32 (st ! tensor1) (st ! tensor2) i j) \<and>
              ((\<forall>k< shape (st ! tensor1) ! 1.
                  int_valued (elem2 (st ! tensor1) i k) \<and> int_valued (elem2 (st ! tensor2) k j)) \<and>
               (\<Sum>k< shape (st ! tensor1) ! 1.
                  \<bar>val (elem2 (st ! tensor1) i k) * val (elem2 (st ! tensor2) k j)\<bar>) \<le> 2 ^ 24 \<longrightarrow>
               Tensor_at C [i, j] =
                 Inr (Fin (\<Sum>k< shape (st ! tensor1) ! 1.
                        val (elem2 (st ! tensor1) i k) * val (elem2 (st ! tensor2) k j))))) \<and>
           (is_identity (st ! tensor2) \<and> all_finite (st ! tensor1) \<longrightarrow>
              shape C = shape (st ! tensor1) \<and> data C = data (st ! tensor1)) \<and>
           (is_identity (st ! tensor1) \<and> all_finite (st ! tensor2) \<longrightarrow>
              shape C = shape (st ! tensor2) \<and> data C = data (st ! tensor2))))"
proof (intro conjI impI)
  assume "rank (st ! tensor1) \<noteq> 2 \<or> rank (st ! tensor2) \<noteq> 2"
  then show "matmul st tensor1 tensor2 result = Inl MatmulRank" by (rule matmul_rank_error)
next
  assume "rank (st ! tensor1) = 2 \<and> rank (st ! tensor2) = 2 \<and>
    shape (st ! tensor1) ! 1 \<noteq> shape (st ! tensor2) ! 0"
  then show "matmul st tensor1 tensor2 result = Inl DimensionMismatch"
    by (simp add: matmul_dimension_error)
next
  define A B where "A = st ! tensor1" and "B = st ! tensor2"
  assume "tensor1 < length st \<and> tensor2 < length st \<and> result < length st \<and>
    result \<noteq> tensor1 \<and> result \<noteq> tensor2 \<and>
    tensor_inv (st ! tensor1) \<and> tensor_inv (st ! tensor2) \<and>
    rank (st ! tensor1) = 2 \<and> rank (st ! tensor2) = 2 \<and>
    shape (st ! tensor1) ! 1 = shape (st ! tensor2) ! 0 \<and>
    total_size (st ! tensor1) < 2 ^ 64 \<and> total_size (st ! tensor2) < 2 ^ 64 \<and>
    shape (st ! tensor1) ! 0 * shape (st ! tensor2) ! 1 < 2 ^ 64"
  then have refs: "tensor1 < length st" "tensor2 < length st" "result < length st"
      "result \<noteq> tensor1" "result \<noteq> tensor2"
    and a: "tensor_inv A" "tensor_inv B" "rank A = 2" "rank B = 2" "shape A ! 1 = shape B ! 0"
    and fit: "total_size A < 2 ^ 64" "total_size B < 2 ^ 64" "shape A ! 0 * shape B ! 1 < 2 ^ 64"
    by (simp_all add: A_def B_def)
  define m n p where "m = shape A ! 0" and "n = shape A ! 1" and "p = shape B ! 1"
  have shA: "shape A = [m, n]" using a rank2_shape [of A] by (simp add: m_def n_def)
  have shB: "shape B = [n, p]" using a rank2_shape [of B] by (simp add: n_def p_def)
  note iA = tensor_inv_rank2 [OF a(1) shA] and iB = tensor_inv_rank2 [OF a(2) shB]
  have lenA: "length (data A) = m * n" and lenB: "length (data B) = n * p"
    and pos: "0 < m" "0 < n" "0 < p"
    using iA iB by simp_all
  have fitA: "m * n < 2 ^ 64" and fitB: "n * p < 2 ^ 64" and fitC: "m * p < 2 ^ 64"
    using fit iA iB by (simp_all add: m_def p_def)
  let ?C = "\<lparr>shape = [m, p], total_size = m * p, dtype = FLOAT32,
           data = map (mm_entry (data A) (data B) n p) [0..<m * p]\<rparr>"
  have mm: "matmul st tensor1 tensor2 result = Inr (st[result := ?C])"
    using matmul_ok [of st tensor1 m n tensor2 p result] shA lenA fitA shB lenB fitB refs fitC pos
    by (simp add: A_def B_def)
  have invC: "tensor_inv ?C"
    using pos by (simp add: tensor_inv_def list_ex_iff)
  have atA: "\<forall>i<m. \<forall>k<n. Tensor_at A [i, k] = Inr (elem2 A i k)"
    by (simp add: Tensor_at2 [OF shA lenA fitA] elem2_def shA)
  have atB: "\<forall>k<n. \<forall>j<p. Tensor_at B [k, j] = Inr (elem2 B k j)"
    by (simp add: Tensor_at2 [OF shB lenB fitB] elem2_def shB)
  have entry: "mm_entry (data A) (data B) n p (i * p + j) = dot32 A B i j"
    if "i < m" "j < p" for i j
    using that by (simp add: mm_entry_def dot32_def elem2_def shA shB)
  have atC: "Tensor_at ?C [i, j] = Inr (dot32 A B i j)" if ij: "i < m" "j < p" for i j
  proof -
    have "Tensor_at ?C [i, j] = Inr (data ?C ! (i * p + j))"
      using ij fitC by (intro Tensor_at2 [where m = m]) simp_all
    also have "data ?C ! (i * p + j) = mm_entry (data A) (data B) n p (i * p + j)"
      using index2_less [OF ij] by simp
    finally show ?thesis using entry [OF ij] by simp
  qed
  have exact: "Tensor_at ?C [i, j] = Inr (Fin (\<Sum>k<n. val (elem2 A i k) * val (elem2 B k j)))"
    if ij: "i < m" "j < p"
      and int: "\<forall>k<n. int_valued (elem2 A i k) \<and> int_valued (elem2 B k j)"
      and small: "(\<Sum>k<n. \<bar>val (elem2 A i k) * val (elem2 B k j)\<bar>) \<le> 2 ^ 24" for i j
    using atC [OF ij] foldl_dot_exact [OF int small] by (simp add: dot32_def shA)
  have idB: "shape ?C = shape A \<and> data ?C = data A" if "is_identity B" "all_finite A"
  proof -
    have np: "p = n" and B: "\<forall>k<n. \<forall>j<n. data B ! (k * n + j) = (if k = j then Fin 1 else Fin 0)"
      using that(1) by (simp_all add: is_identity_def shB elem2_def)
    have fin: "finite32 (data A ! ((idx div n) * n + k))" if "idx < m * n" "k < n" for idx k
    proof -
      have "idx div n < m" using that(1) pos by (simp add: less_mult_imp_div_less)
      then have "(idx div n) * n + k < m * n" using that(2) by (rule index2_less)
      then show ?thesis using \<open>all_finite A\<close> lenA by (simp add: all_finite_def)
    qed
    have "data ?C = data A"
      using lenA np fin mm_entry_right_identity [OF _ B, of _ m "data A"]
      by (intro nth_equalityI) simp_all
    then show ?thesis by (simp add: shA np)
  qed
  have idA: "shape ?C = shape B \<and> data ?C = data B" if "is_identity A" "all_finite B"
  proof -
    have mn: "m = n" and A: "\<forall>i<n. \<forall>k<n. data A ! (i * n + k) = (if i = k then Fin 1 else Fin 0)"
      using that(1) by (simp_all add: is_identity_def shA elem2_def)
    have fin: "finite32 (data B ! (k * p + idx mod p))" if "k < n" for idx k
    proof -
      have "idx mod p < p" using pos by simp
      with that have "k * p + idx mod p < n * p" by (rule index2_less)
      then show ?thesis using \<open>all_finite B\<close> lenB by (simp add: all_finite_def)
    qed
    have "data ?C = data B"
      using lenB mn fin mm_entry_left_identity [OF _ A, of _ p "data B"]
      by (intro nth_equalityI) simp_all
    then show ?thesis by (simp add: shB mn)
  qed
  show "\<exists>C. matmul st tensor1 tensor2 result = Inr (st[result := C]) \<and>
           shape C = [shape (st ! tensor1) ! 0, shape (st ! tensor2) ! 1] \<and>
           dtype C = FLOAT32 \<and> tensor_inv C \<and>
           (\<forall>i< shape (st ! tensor1) ! 0. \<forall>k< shape (st ! tensor1) ! 1.
              Tensor_at (st ! tensor1) [i, k] = Inr (elem2 (st ! tensor1) i k)) \<and>
           (\<forall>k< shape (st ! tensor2) ! 0. \<forall>j< shape (st ! tensor2) ! 1.
              Tensor_at (st ! tensor2) [k, j] = Inr (elem2 (st ! tensor2) k j)) \<and>
           (\<forall>i< shape (st ! tensor1) ! 0. \<forall>j< shape (st ! tensor2) ! 1.
              Tensor_at C [i, j] = Inr (dot32 (st ! tensor1) (st ! tensor2) i j) \<and>
              ((\<forall>k< shape (st ! tensor1) ! 1.
                  int_valued (elem2 (st ! tensor1) i k) \<and> int_valued (elem2 (st ! tensor2) k j)) \<and>
               (\<Sum>k< shape (st ! tensor1) ! 1.
                  \<bar>val (elem2 (st ! tensor1) i k) * val (elem2 (st ! tensor2) k j)\<bar>) \<le> 2 ^ 24 \<longrightarrow>
               Tensor_at C [i, j] =
                 Inr (Fin (\<Sum>k< shape (st ! tensor1) ! 1.
                        val (elem2 (st ! tensor1) i k) * val (elem2 (st ! tensor2) k j))))) \<and>
           (is_identity (st ! tensor2) \<and> all_finite (st ! tensor1) \<longrightarrow>
              shape C = shape (st ! tensor1) \<and> data C = data (st ! tensor1)) \<and>
           (is_identity (st ! tensor1) \<and> all_finite (st ! tensor2) \<longrightarrow>
              shape C = shape (st ! tensor2) \<and> data C = data (st ! tensor2))"
    unfolding A_def [symmetric] B_def [symmetric]
  proof (intro exI [of _ ?C] conjI)
    show "matmul st tensor1 tensor2 result = Inr (st[result := ?C])" by (rule mm)
    show "tensor_inv ?C" by (rule invC)
    show "\<forall>i< shape A ! 0. \<forall>k< shape A ! 1. Tensor_at A [i, k] = Inr (elem2 A i k)"
      using atA by (simp add: shA)
    show "\<forall>k< shape B ! 0. \<forall>j< shape B ! 1. Tensor_at B [k, j] = Inr (elem2 B k j)"
      using atB by (simp add: shB)
    show "\<forall>i< shape A ! 0. \<forall>j< shape B ! 1.
              Tensor_at ?C [i, j] = Inr (dot32 A B i j) \<and>
              ((\<forall>k< shape A ! 1. int_valued (elem2 A i k) \<and> int_valued (elem2 B k j)) \<and>
               (\<Sum>k< shape A ! 1. \<bar>val (elem2 A i k) * val (elem2 B k j)\<bar>) \<le> 2 ^ 24 \<longrightarrow>
               Tensor_at ?C [i, j] =
                 Inr (Fin (\<Sum>k< shape A ! 1. val (elem2 A i k) * val (elem2 B k j))))"
      using atC exact by (simp add: shA shB)
    show "is_identity B \<and> all_finite A \<longrightarrow> shape ?C = shape A \<and> data ?C = data A"
      using idB by blast
    show "is_identity A \<and> all_finite B \<longrightarrow> shape ?C = shape B \<and> data ?C = data B"
      using idA by blast
  qed (simp_all add: shA shB)
qed

theorem matmul_correct_witness:
  "matmul [\<lparr>shape = [2, 2], total_size = 4, dtype = FLOAT32, data = [Fin 1, Fin 2, Fin 3, Fin 4]\<rparr>,
           \<lparr>shape = [2, 2], total_size = 4, dtype = FLOAT32, data = [Fin 1, Fin 0, Fin 0, Fin 1]\<rparr>,
           Tensor_default] 0 1 2 =
     Inr [\<lparr>shape = [2, 2], total_size = 4, dtype = FLOAT32, data = [Fin 1, Fin 2, Fin 3, Fin 4]\<rparr>,
          \<lparr>shape = [2, 2], total_size = 4, dtype = FLOAT32, data = [Fin 1, Fin 0, Fin 0, Fin 1]\<rparr>,
          \<lparr>shape = [2, 2], total_size = 4, dtype = FLOAT32, data = [Fin 1, Fin 2, Fin 3, Fin 4]\<rparr>] \<and>
   matmul [\<lparr>shape = [2, 2], total_size = 4, dtype = FLOAT32, data = [Fin 1, Fin 2, Fin 3, Fin 4]\<rparr>,
           \<lparr>shape = [2], total_size = 2, dtype = FLOAT32, data = [Fin 1, Fin 0]\<rparr>,
           Tensor_default] 0 1 2 = Inl MatmulRank \<and>
   matmul [\<lparr>shape = [2, 2], total_size = 4, dtype = FLOAT32, data = [Fin 1, Fin 2, Fin 3, Fin 4]\<rparr>,
           \<lparr>shape = [3, 1], total_size = 3, dtype = FLOAT32, data = [Fin 1, Fin 0, Fin 0]\<rparr>,
           Tensor_default] 0 1 2 = Inl DimensionMismatch"
proof -
  let ?A = "\<lparr>shape = [2, 2], total_size = 4, dtype = FLOAT32, data = [Fin 1, Fin 2, Fin 3, Fin 4]\<rparr>"
  let ?I = "\<lparr>shape = [2, 2], total_size = 4, dtype = FLOAT32, data = [Fin 1, Fin 0, Fin 0, Fin 1]\<rparr>"
  let ?V = "\<lparr>shape = [2], total_size = 2, dtype = FLOAT32, data = [Fin 1, Fin 0]\<rparr>"
  let ?W = "\<lparr>shape = [3, 1], total_size = 3, dtype = FLOAT32, data = [Fin 1, Fin 0, Fin 0]\<rparr>"
  let ?st = "[?A, ?I, Tensor_default]"
  have hyp: "(0::nat) < length ?st \<and> (1::nat) < length ?st \<and> (2::nat) < length ?st \<and>
    (2::nat) \<noteq> 0 \<and> (2::nat) \<noteq> 1 \<and>
    tensor_inv (?st ! 0) \<and> tensor_inv (?st ! 1) \<and> rank (?st ! 0) = 2 \<and> rank (?st ! 1) = 2 \<and>
    shape (?st ! 0) ! 1 = shape (?st ! 1) ! 0 \<and>
    total_size (?st ! 0) < 2 ^ 64 \<and> total_size (?st ! 1) < 2 ^ 64 \<and>
    shape (?st ! 0) ! 0 * shape (?st ! 1) ! 1 < 2 ^ 64"
    by (simp add: tensor_inv_def rank_def)
  have idI: "is_identity (?st ! 1)"
    by (simp add: is_identity_def rank_def elem2_def less_Suc_eq numeral_2_eq_2)
  have fin: "all_finite (?st ! 0)"
    by (simp add: all_finite_def)
  from matmul_correct [of ?st 0 1 2] hyp idI fin
  obtain C where C: "matmul ?st 0 1 2 = Inr (?st[2 := C])" "dtype C = FLOAT32" "tensor_inv C"
      "shape C = shape (?st ! 0)" "data C = data (?st ! 0)"
    by blast
  then have "C = ?A"
    by (cases C) (simp add: tensor_inv_def)
  with C(1) have 1: "matmul ?st 0 1 2 = Inr [?A, ?I, ?A]" by simp
  have 2: "matmul [?A, ?V, Tensor_default] 0 1 2 = Inl MatmulRank"
    using matmul_correct [of "[?A, ?V, Tensor_default]" 0 1 2] by (simp add: rank_def)
  have 3: "matmul [?A, ?W, Tensor_default] 0 1 2 = Inl DimensionMismatch"
    using matmul_correct [of "[?A, ?W, Tensor_default]" 0 1 2] by (simp add: rank_def)
  from 1 2 3 show ?thesis by simp
qed

section \<open>Division by zero in place\<close>

lemma Tensor_copy_inv: "length (data t) = total_size t \<Longrightarrow> Tensor_copy t = Inr t"
  by (simp add: Tensor_copy_def)

lemma for_loop_st_append:
  "for_loop_st (xs @ ys) body s =
     (case for_loop_st xs body s of
        (Some e, s') \<Rightarrow> (Some e, s')
      | (None, s') \<Rightarrow> for_loop_st ys body s')"
  by (induction xs arbitrary: s) (simp_all split: sum.splits)

lemma for_loop_st_invariant:
  assumes "I 0 s"
    and "\<And>i s. i < n \<Longrightarrow> I i s \<Longrightarrow> \<exists>s'. body i s = Inr s' \<and> I (Suc i) s'"
  shows "\<exists>s'. for_loop_st [0..<n] body s = (None, s') \<and> I n s'"
  using assms(2)
proof (induction n)
  case 0
  show ?case using assms(1) by simp
next
  case (Suc n)
  from Suc.IH Suc.prems obtain s1 where s1: "for_loop_st [0..<n] body s = (None, s1)" "I n s1"
    by (meson less_Suc_eq)
  from Suc.prems [of n s1] s1(2) obtain s2 where s2: "body n s1 = Inr s2" "I (Suc n) s2"
    by auto
  show ?case
    using s1(1) s2 by (simp add: for_loop_st_append)
qed

lemma feq_zero [simp]: "feq d (Fin 0) \<longleftrightarrow> d = Fin 0"
  by (cases d) simp_all

lemma first_zero_props:
  assumes "Fin 0 \<in> set b"
  shows "first_zero b < length b" "b ! first_zero b = Fin 0" "\<forall>j<first_zero b. b ! j \<noteq> Fin 0"
proof -
  let ?P = "\<lambda>x::f32. x \<noteq> Fin 0"
  have ne: "takeWhile ?P b \<noteq> b"
    using assms by (simp add: takeWhile_eq_all_conv)
  have "length (takeWhile ?P b) \<noteq> length b"
  proof
    assume eq: "length (takeWhile ?P b) = length b"
    have "takeWhile ?P b = take (length (takeWhile ?P b)) b"
      by (rule takeWhile_eq_take)
    also have "\<dots> = b" by (simp only: eq take_all order_refl)
    finally show False using ne by simp
  qed
  then show lt: "first_zero b < length b"
    unfolding first_zero_def using length_takeWhile_le [of ?P b] by simp
  show "b ! first_zero b = Fin 0"
    using nth_length_takeWhile [of ?P b] lt unfolding first_zero_def by blast
  show "\<forall>j<first_zero b. b ! j \<noteq> Fin 0"
  proof (intro allI impI)
    fix j assume j: "j < first_zero b"
    then have "takeWhile ?P b ! j \<in> set (takeWhile ?P b)"
      unfolding first_zero_def by (rule nth_mem)
    then have "?P (takeWhile ?P b ! j)"
      by (rule set_takeWhileD [THEN conjunct2])
    moreover have "takeWhile ?P b ! j = b ! j"
      using j unfolding first_zero_def by (rule takeWhile_nth)
    ultimately show "b ! j \<noteq> Fin 0" by simp
  qed
qed

lemma div_assign_stops:
  fixes st :: store
  assumes ids: "this < length st" "other < length st"
    and sh: "shape (st ! this) = shape (st ! other)"
    and len: "length (data (st ! this)) = total_size (st ! this)"
             "length (data (st ! other)) = total_size (st ! this)"
    and k: "k < total_size (st ! this)" "data (st ! other) ! k = Fin 0"
           "\<forall>j<k. data (st ! other) ! j \<noteq> Fin 0"
  shows "div_assign st this other =
     (Some DivisionByZero,
      st[this := (st ! this)\<lparr>data :=
           map (\<lambda>j. fdiv (data (st ! this) ! j) (data (st ! other) ! j)) [0..<k] @
           drop k (data (st ! this))\<rparr>])"
proof -
  define a b n where "a = data (st ! this)" and "b = data (st ! other)" and "n = total_size (st ! this)"
  define T where "T = st ! this"
  define body where "body = (\<lambda>i (st :: store).
          case deref (data (st ! other)) i of
            Inl e \<Rightarrow> Inl e
          | Inr d \<Rightarrow>
              if feq d (Fin 0) then Inl DivisionByZero
              else
                (case deref (data (st ! this)) i of
                   Inl e \<Rightarrow> Inl e
                 | Inr x \<Rightarrow>
                     Inr (st[this := (st ! this)\<lparr>data := (data (st ! this))[i := fdiv x d]\<rparr>])))"
  define S where "S = (\<lambda>j. st[this := T\<lparr>data := map (\<lambda>i. fdiv (a ! i) (b ! i)) [0..<j] @ drop j a\<rparr>])"
  have la: "length a = n" and lb: "length b = n"
    using len by (simp_all add: a_def b_def n_def)
  have kn: "k < n" using k(1) by (simp add: n_def)
  have this_S: "data (S j ! this) = map (\<lambda>i. fdiv (a ! i) (b ! i)) [0..<j] @ drop j a" for j
    using ids by (simp add: S_def)
  have other_S: "data (S j ! other) ! i = b ! i" if "j \<le> i" "i < n" "j \<le> n" for i j
  proof (cases "other = this")
    case True
    then have "a = b" by (simp add: a_def b_def)
    then show ?thesis
      using that True la by (simp add: this_S nth_append)
  next
    case False
    then show ?thesis by (simp add: S_def b_def)
  qed
  have len_other: "length (data (S j ! other)) = n" if "j \<le> n" for j
  proof (cases "other = this")
    case True
    then show ?thesis using that la by (simp add: this_S)
  next
    case False
    then show ?thesis using lb by (simp add: S_def b_def)
  qed
  have step: "body j (S j) = Inr (S (Suc j))" if j: "j < k" for j
  proof -
    have jn: "j < n" using j kn by simp
    have d: "deref (data (S j ! other)) j = Inr (b ! j)"
      using other_S [of j j] len_other [of j] jn by (simp add: deref_def)
    have nz: "b ! j \<noteq> Fin 0" using k(3) j by (simp add: b_def)
    have x: "deref (data (S j ! this)) j = Inr (a ! j)"
      using jn la by (simp add: this_S deref_def nth_append)
    have upd: "(map (\<lambda>i. fdiv (a ! i) (b ! i)) [0..<j] @ drop j a)[j := fdiv (a ! j) (b ! j)] =
               map (\<lambda>i. fdiv (a ! i) (b ! i)) [0..<Suc j] @ drop (Suc j) a"
      using jn la
      by (simp add: list_update_append Cons_nth_drop_Suc [symmetric])
    have "(S j)[this := (S j ! this)\<lparr>data := (data (S j ! this))[j := fdiv (a ! j) (b ! j)]\<rparr>] = S (Suc j)"
      using ids upd by (simp add: S_def)
    then show ?thesis
      by (simp add: body_def d nz x)
  qed
  have "\<exists>s'. for_loop_st [0..<k] body st = (None, s') \<and> s' = S k"
  proof (rule for_loop_st_invariant [where I = "\<lambda>j s. j \<le> k \<longrightarrow> s = S j"
      and n = k and s = st and body = body, THEN exE])
    show "0 \<le> k \<longrightarrow> st = S 0"
      using ids by (simp add: S_def T_def a_def list_update_same_conv)
  next
    fix i s
    assume "i < k" "i \<le> k \<longrightarrow> s = S i"
    then show "\<exists>s'. body i s = Inr s' \<and> (Suc i \<le> k \<longrightarrow> s' = S (Suc i))"
      using step [of i] by simp
  next
    fix s'
    assume "for_loop_st [0..<k] body st = (None, s') \<and> (k \<le> k \<longrightarrow> s' = S k)"
    then show ?thesis by simp
  qed
  then have first: "for_loop_st [0..<k] body st = (None, S k)" by simp
  have stop: "body k (S k) = Inl DivisionByZero"
  proof -
    have "deref (data (S k ! other)) k = Inr (b ! k)"
      using other_S [of k k] len_other [of k] kn by (simp add: deref_def)
    then show ?thesis using k(2) by (simp add: body_def b_def)
  qed
  have "[0..<n] = [0..<k] @ [k..<n]"
    using kn upt_add_eq_append [of 0 k "n - k"] by simp
  then have split: "[0..<n] = [0..<k] @ k # [Suc k..<n]"
    using kn by (simp add: upt_conv_Cons)
  have "for_loop_st [0..<n] body st = (Some DivisionByZero, S k)"
    by (simp add: split for_loop_st_append first stop)
  then show ?thesis
    using sh by (simp add: div_assign_def body_def n_def S_def T_def a_def b_def)
qed

lemma op_div_stops:
  fixes st :: store
  assumes ids: "lhs < length st" "rhs < length st"
    and sh: "shape (st ! lhs) = shape (st ! rhs)"
    and len: "length (data (st ! lhs)) = total_size (st ! lhs)"
             "length (data (st ! rhs)) = total_size (st ! lhs)"
    and k: "k < total_size (st ! lhs)" "data (st ! rhs) ! k = Fin 0"
           "\<forall>j<k. data (st ! rhs) ! j \<noteq> Fin 0"
  shows "op_div st lhs rhs = (Inl DivisionByZero, st)"
proof -
  let ?st = "st @ [st ! lhs]"
  have new: "?st ! length st = st ! lhs" by simp
  have old: "?st ! rhs = st ! rhs" using ids by (simp add: nth_append)
  have "div_assign ?st (length st) rhs =
     (Some DivisionByZero,
      ?st[length st := (?st ! length st)\<lparr>data :=
           map (\<lambda>j. fdiv (data (?st ! length st) ! j) (data (?st ! rhs) ! j)) [0..<k] @
           drop k (data (?st ! length st))\<rparr>])"
    using ids sh len k by (intro div_assign_stops) (simp_all only: new old, simp_all)
  then show ?thesis
    using len by (simp add: op_div_def Tensor_copy_inv Let_def)
qed

text \<open>
  Claim C10. Let \<^verbatim>\<open>this\<close> and \<^verbatim>\<open>other\<close> be tensors of the store (possibly the same one) that
  satisfy the invariants and have the same shape, the divisor holding a zero. Then
  \<^verbatim>\<open>operator/=\<close> throws \<open>DivisionByZero\<close> at the first zero of the divisor in flat order,
  and at that moment every element of the left operand before that index has been
  divided in place while the elements from that index on are as before: the left operand
  is not restored (the quotients are the binary32 quotients). \<^verbatim>\<open>operator/\<close> throws the same
  error and leaves the store, and so both operands, unchanged, since it divides a copy.
\<close>

theorem div_assign_not_atomic:
  "this < length st \<and> other < length st \<and> tensor_inv (st ! this) \<and> tensor_inv (st ! other) \<and>
   shape (st ! this) = shape (st ! other) \<and> Fin 0 \<in> set (data (st ! other)) \<longrightarrow>
     first_zero (data (st ! other)) < total_size (st ! this) \<and>
     data (st ! other) ! first_zero (data (st ! other)) = Fin 0 \<and>
     (\<forall>j < first_zero (data (st ! other)). data (st ! other) ! j \<noteq> Fin 0) \<and>
     div_assign st this other =
       (Some DivisionByZero,
        st[this := (st ! this)\<lparr>data :=
             map (\<lambda>j. fdiv (data (st ! this) ! j) (data (st ! other) ! j))
               [0..<first_zero (data (st ! other))] @
             drop (first_zero (data (st ! other))) (data (st ! this))\<rparr>]) \<and>
     op_div st this other = (Inl DivisionByZero, st)"
proof (intro impI)
  assume a: "this < length st \<and> other < length st \<and> tensor_inv (st ! this) \<and>
    tensor_inv (st ! other) \<and> shape (st ! this) = shape (st ! other) \<and> Fin 0 \<in> set (data (st ! other))"
  then have len: "length (data (st ! this)) = total_size (st ! this)"
      "length (data (st ! other)) = total_size (st ! this)"
    by (simp_all add: tensor_inv_def)
  note fz = first_zero_props [of "data (st ! other)"]
  have k: "first_zero (data (st ! other)) < total_size (st ! this)"
    "data (st ! other) ! first_zero (data (st ! other)) = Fin 0"
    "\<forall>j < first_zero (data (st ! other)). data (st ! other) ! j \<noteq> Fin 0"
    using a fz len by simp_all
  show "first_zero (data (st ! other)) < total_size (st ! this) \<and>
     data (st ! other) ! first_zero (data (st ! other)) = Fin 0 \<and>
     (\<forall>j < first_zero (data (st ! other)). data (st ! other) ! j \<noteq> Fin 0) \<and>
     div_assign st this other =
       (Some DivisionByZero,
        st[this := (st ! this)\<lparr>data :=
             map (\<lambda>j. fdiv (data (st ! this) ! j) (data (st ! other) ! j))
               [0..<first_zero (data (st ! other))] @
             drop (first_zero (data (st ! other))) (data (st ! this))\<rparr>]) \<and>
     op_div st this other = (Inl DivisionByZero, st)"
    using a k div_assign_stops [OF _ _ _ len k] op_div_stops [OF _ _ _ len k]
    by (intro conjI) simp_all
qed

theorem div_assign_not_atomic_witness:
  "div_assign [\<lparr>shape = [3], total_size = 3, dtype = FLOAT32, data = [Fin 6, Fin 8, Fin 5]\<rparr>,
               \<lparr>shape = [3], total_size = 3, dtype = FLOAT32, data = [Fin 2, Fin 4, Fin 0]\<rparr>] 0 1 =
     (Some DivisionByZero,
      [\<lparr>shape = [3], total_size = 3, dtype = FLOAT32, data = [Fin 3, Fin 2, Fin 5]\<rparr>,
       \<lparr>shape = [3], total_size = 3, dtype = FLOAT32, data = [Fin 2, Fin 4, Fin 0]\<rparr>]) \<and>
   op_div [\<lparr>shape = [3], total_size = 3, dtype = FLOAT32, data = [Fin 6, Fin 8, Fin 5]\<rparr>,
           \<lparr>shape = [3], total_size = 3, dtype = FLOAT32, data = [Fin 2, Fin 4, Fin 0]\<rparr>] 0 1 =
     (Inl DivisionByZero,
      [\<lparr>shape = [3], total_size = 3, dtype = FLOAT32, data = [Fin 6, Fin 8, Fin 5]\<rparr>,
       \<lparr>shape = [3], total_size = 3, dtype = FLOAT32, data = [Fin 2, Fin 4, Fin 0]\<rparr>])"
  using div_assign_not_atomic [of 0
      "[\<lparr>shape = [3], total_size = 3, dtype = FLOAT32, data = [Fin 6, Fin 8, Fin 5]\<rparr>,
        \<lparr>shape = [3], total_size = 3, dtype = FLOAT32, data = [Fin 2, Fin 4, Fin 0]\<rparr>]" 1]
  by (simp add: tensor_inv_def first_zero_def numeral_2_eq_2)

section \<open>Loading a model file\<close>



























section \<open>Profiling statistics of the inference engine\<close>

lemma run_layers_no_profiling:
  "\<not> profiling_enabled E \<Longrightarrow> fst (snd (run_layers fexp clk k i ls cur E)) = E"
  by (induction ls arbitrary: k i cur) (simp_all add: Let_def split: sum.splits)

lemma executeForwardPass_no_profiling:
  "\<not> profiling_enabled E \<Longrightarrow> fst (snd (executeForwardPass fexp clk k E input)) = E"
proof (cases "Tensor_copy input")
  case (Inl e)
  then show ?thesis by (simp add: executeForwardPass_def)
next
  case (Inr cur)
  assume np: "\<not> profiling_enabled E"
  obtain r E' k' where run: "run_layers fexp clk k 0 (layers (model E)) cur E = (r, E', k')"
    by (cases "run_layers fexp clk k 0 (layers (model E)) cur E") auto
  with run_layers_no_profiling [OF np, of fexp clk k 0 "layers (model E)" cur] have "E' = E"
    by simp
  with Inr run show ?thesis
    by (cases r) (simp_all add: executeForwardPass_def)
qed

lemma predict_no_profiling:
  "\<not> profiling_enabled E \<Longrightarrow> snd (predict fexp clk E input) = E"
proof -
  assume np: "\<not> profiling_enabled E"
  obtain r E' k' where run: "executeForwardPass fexp clk 1 E input = (r, E', k')"
    by (cases "executeForwardPass fexp clk 1 E input") auto
  with executeForwardPass_no_profiling [OF np, of fexp clk 1 input] have "E' = E"
    by simp
  with np run show ?thesis
    by (cases r) (simp_all add: predict_def Let_def split: sum.splits)
qed

lemma apply_call_stats:
  assumes "case c of Predict _ _ \<Rightarrow> \<not> profiling_enabled E | _ \<Rightarrow> True"
  shows "last_stats (apply_call fexp E c) = last_stats E"
  using assms
  by (cases c) (simp_all add: predict_no_profiling enableProfiling_def preallocateBuffers_def
      clearBuffers_def)

lemma never_profiled_stats:
  "never_profiled fexp E cs \<Longrightarrow> last_stats (foldl (apply_call fexp) E cs) = last_stats E"
proof (induction cs arbitrary: E)
  case Nil
  show ?case by simp
next
  case (Cons c cs)
  then show ?case by (simp add: apply_call_stats)
qed

text \<open>
  Claim C5, amended. A \<^verbatim>\<open>predict\<close> call made while profiling is disabled leaves the stats
  read by \<^verbatim>\<open>getLastInferenceStats\<close> exactly as they were before the call. Hence, on an
  engine as constructed, after any sequence of calls of the public operations in which
  no \<^verbatim>\<open>predict\<close> runs with profiling enabled, the stats are at their default: zero total
  time, no per-layer times, zero bytes.
\<close>

theorem predict_without_profiling_keeps_stats:
  "(\<not> profiling_enabled E \<longrightarrow>
      getLastInferenceStats (snd (predict fexp clk E input)) = getLastInferenceStats E) \<and>
   (InferenceEngine_new m = Inr E0 \<and> never_profiled fexp E0 cs \<longrightarrow>
      getLastInferenceStats (foldl (apply_call fexp) E0 cs) = InferenceStats_default)"
proof (intro conjI impI)
  assume "\<not> profiling_enabled E"
  then show "getLastInferenceStats (snd (predict fexp clk E input)) = getLastInferenceStats E"
    by (simp add: predict_no_profiling)
next
  assume a: "InferenceEngine_new m = Inr E0 \<and> never_profiled fexp E0 cs"
  then have "last_stats E0 = InferenceStats_default"
    by (auto simp: InferenceEngine_new_def split: option.splits if_splits)
  with a show "getLastInferenceStats (foldl (apply_call fexp) E0 cs) = InferenceStats_default"
    by (simp add: getLastInferenceStats_def never_profiled_stats)
qed

lemma linear_eval:
  "LinearLayer_forward
     \<lparr>weights = \<lparr>shape = [1, 1], total_size = 1, dtype = FLOAT32, data = [Fin 2]\<rparr>,
      bias = \<lparr>shape = [1], total_size = 1, dtype = FLOAT32, data = [Fin 1]\<rparr>\<rparr>
     [\<lparr>shape = [1], total_size = 1, dtype = FLOAT32, data = [Fin 1]\<rparr>, Tensor_default] 0 1 =
   Inr [\<lparr>shape = [1], total_size = 1, dtype = FLOAT32, data = [Fin 1]\<rparr>,
        \<lparr>shape = [1], total_size = 1, dtype = FLOAT32, data = [Fin 3]\<rparr>]"
  by (simp add: LinearLayer_forward_def rank_def Tensor_new_def validateShape_def
      calculateTotalSize_def size_mul_def size_add_def memcpy_def matmul_def Tensor_at_def
      Tensor_at_put_def calculateIndex_def check_bounds_def linearize_def deref_def assign_def
      Tensor_default_def Let_def)

text \<open>
  Claim C5, as stated, fails: \<^verbatim>\<open>predict\<close> resets the stats only when profiling is enabled.
  On an engine with one linear layer, a profiled \<^verbatim>\<open>predict\<close> (the clock advancing one
  millisecond per reading) followed by \<^verbatim>\<open>enableProfiling(false)\<close> and a second
  \<^verbatim>\<open>predict\<close> leaves the stats of the first call in place: 3 ms in total, one layer
  time, 1000000 bytes.
\<close>

theorem stale_stats_counterexample:
  "InferenceEngine_new (Some \<lparr>layers = [Linear
       \<lparr>weights = \<lparr>shape = [1, 1], total_size = 1, dtype = FLOAT32, data = [Fin 2]\<rparr>,
        bias = \<lparr>shape = [1], total_size = 1, dtype = FLOAT32, data = [Fin 1]\<rparr>\<rparr>],
       input_shape = [1], output_shape = [1]\<rparr>) =
     Inr \<lparr>model = \<lparr>layers = [Linear
       \<lparr>weights = \<lparr>shape = [1, 1], total_size = 1, dtype = FLOAT32, data = [Fin 2]\<rparr>,
        bias = \<lparr>shape = [1], total_size = 1, dtype = FLOAT32, data = [Fin 1]\<rparr>\<rparr>],
       input_shape = [1], output_shape = [1]\<rparr>,
       profiling_enabled = False, last_stats = InferenceStats_default,
       intermediate_tensors = [], buffers_allocated = False\<rparr> \<and>
   getLastInferenceStats (foldl (apply_call exp32)
     \<lparr>model = \<lparr>layers = [Linear
       \<lparr>weights = \<lparr>shape = [1, 1], total_size = 1, dtype = FLOAT32, data = [Fin 2]\<rparr>,
        bias = \<lparr>shape = [1], total_size = 1, dtype = FLOAT32, data = [Fin 1]\<rparr>\<rparr>],
       input_shape = [1], output_shape = [1]\<rparr>,
       profiling_enabled = False, last_stats = InferenceStats_default,
       intermediate_tensors = [], buffers_allocated = False\<rparr>
     [EnableProfiling True,
      Predict real \<lparr>shape = [1], total_size = 1, dtype = FLOAT32, data = [Fin 1]\<rparr>,
      EnableProfiling False,
      Predict real \<lparr>shape = [1], total_size = 1, dtype = FLOAT32, data = [Fin 1]\<rparr>]) =
     \<lparr>total_time = 3, layer_times = [1], memory_usage_bytes = 1000000\<rparr> \<and>
   \<lparr>total_time = 3, layer_times = [1], memory_usage_bytes = 1000000\<rparr> \<noteq> InferenceStats_default"
  by (simp add: InferenceEngine_new_def getLastInferenceStats_def enableProfiling_def
      predict_def validateInput_def rank_def executeForwardPass_def Tensor_copy_def
      linear_eval [simplified] updateMemoryUsage_def size_add_def InferenceStats_default_def
      Let_def)

theorem predict_without_profiling_keeps_stats_witness:
  "getLastInferenceStats (snd (predict exp32 real
     \<lparr>model = \<lparr>layers = [ReLU], input_shape = [1], output_shape = [1]\<rparr>,
       profiling_enabled = False, last_stats = InferenceStats_default,
       intermediate_tensors = [], buffers_allocated = False\<rparr>
     \<lparr>shape = [1], total_size = 1, dtype = FLOAT32, data = [Fin 1]\<rparr>)) = InferenceStats_default \<and>
   getLastInferenceStats (foldl (apply_call exp32)
     \<lparr>model = \<lparr>layers = [ReLU], input_shape = [1], output_shape = [1]\<rparr>,
       profiling_enabled = False, last_stats = InferenceStats_default,
       intermediate_tensors = [], buffers_allocated = False\<rparr>
     [Predict real \<lparr>shape = [1], total_size = 1, dtype = FLOAT32, data = [Fin 1]\<rparr>,
      PreallocateBuffers,
      Predict real \<lparr>shape = [1], total_size = 1, dtype = FLOAT32, data = [Fin (- 1)]\<rparr>]) =
     InferenceStats_default"
proof -
  let ?M = "\<lparr>layers = [ReLU], input_shape = [1], output_shape = [1]\<rparr>"
  let ?E = "\<lparr>model = ?M, profiling_enabled = False, last_stats = InferenceStats_default,
       intermediate_tensors = [], buffers_allocated = False\<rparr>"
  let ?x = "\<lparr>shape = [1], total_size = 1, dtype = FLOAT32, data = [Fin 1]\<rparr>"
  let ?y = "\<lparr>shape = [1], total_size = 1, dtype = FLOAT32, data = [Fin (- 1)]\<rparr>"
  let ?cs = "[Predict real ?x, PreallocateBuffers, Predict real ?y]"
  have new: "InferenceEngine_new (Some ?M) = Inr ?E"
    by (simp add: InferenceEngine_new_def)
  have 1: "getLastInferenceStats (snd (predict exp32 real ?E ?x)) = InferenceStats_default"
    using predict_without_profiling_keeps_stats [of ?E exp32 real ?x]
    by (simp add: getLastInferenceStats_def)
  have np: "never_profiled exp32 ?E ?cs"
    using predict_without_profiling_keeps_stats [of ?E exp32 real ?x]
    by (simp add: predict_no_profiling preallocateBuffers_def)
  have 2: "getLastInferenceStats (foldl (apply_call exp32) ?E ?cs) = InferenceStats_default"
    using predict_without_profiling_keeps_stats [of _ exp32 _ _ "Some ?M" ?E ?cs] new np
    by blast
  from 1 2 show ?thesis by simp
qed

section \<open>The linear layer\<close>

lemma for_loop_nested:
  assumes "I 0 s"
    and "\<And>i j s. i < m \<Longrightarrow> j < p \<Longrightarrow> I (i * p + j) s \<Longrightarrow>
           \<exists>s'. body i j s = Inr s' \<and> I (Suc (i * p + j)) s'"
  shows "\<exists>s'. for_loop [0..<m] (\<lambda>i s. for_loop [0..<p] (\<lambda>j s. body i j s) s) s = Inr s' \<and>
              I (m * p) s'"
proof (rule for_loop_invariant [where I = "\<lambda>i s. I (i * p) s"])
  show "I (0 * p) s" using assms(1) by simp
next
  fix i s
  assume i: "i < m" and inv: "I (i * p) s"
  have "\<exists>s'. for_loop [0..<p] (\<lambda>j s. body i j s) s = Inr s' \<and> I (i * p + p) s'"
  proof (rule for_loop_invariant [where I = "\<lambda>j s. I (i * p + j) s"])
    show "I (i * p + 0) s" using inv by simp
  next
    fix j s
    assume "j < p" "I (i * p + j) s"
    then show "\<exists>s'. body i j s = Inr s' \<and> I (i * p + Suc j) s'"
      using assms(2) [OF i] by simp
  qed
  then show "\<exists>s'. for_loop [0..<p] (\<lambda>j s. body i j s) s = Inr s' \<and> I (Suc i * p) s'"
    by (simp add: add.commute)
qed

lemma factor_less:
  fixes a b c :: nat
  assumes "a * b < c"
  shows "0 < b \<Longrightarrow> a < c" "0 < a \<Longrightarrow> b < c"
proof -
  assume "0 < b"
  then have "a \<le> a * b" by (cases b) simp_all
  then show "a < c" using assms by linarith
next
  assume "0 < a"
  then have "b \<le> a * b" by (cases a) simp_all
  then show "b < c" using assms by linarith
qed

lemma Tensor_at1:
  assumes "shape t = [n]" "length (data t) = n" "n < 2 ^ 64" "j < n"
  shows "Tensor_at t [j] = Inr (data t ! j)"
proof -
  have "\<forall>x<length [j]. [j] ! x < shape t ! x" using assms by simp
  then have "calculateIndex t [j] =
      Inr (\<Sum>x<length [j]. [j] ! x * prod_list (drop (Suc x) (shape t)))"
    using assms(1,3) by (intro calculateIndex_fits) simp_all
  then show ?thesis using assms by (simp add: Tensor_at_def deref_def)
qed

lemma tensor_inv_rank1:
  assumes "tensor_inv t" "shape t = [n]"
  shows "0 < n" "length (data t) = n" "total_size t = n"
  using assms by (auto simp: tensor_inv_def)

lemma rank1_shape: "rank t = 1 \<Longrightarrow> shape t = [shape t ! 0]"
  by (cases "shape t"; cases "tl (shape t)") (auto simp: rank_def)

lemma LinearLayer_new_ok:
  assumes "tensor_inv w" "tensor_inv b" "LinearLayer_new w b = Inr L"
  shows "weights L = w \<and> bias L = b \<and> rank w = 2 \<and> rank b = 1 \<and> shape w ! 1 = shape b ! 0"
  using assms
  by (auto simp: LinearLayer_new_def Tensor_copy_inv tensor_inv_def split: if_splits)

lemma forward_rank1:
  fixes st :: store
  assumes W: "shape (weights L) = [n, p]" "length (data (weights L)) = n * p" "n * p < 2 ^ 64"
    and b: "length (data (bias L)) = p"
    and x: "shape (st ! input) = [n]" "length (data (st ! input)) = n" "total_size (st ! input) = n"
    and refs: "output < length st"
    and pos: "0 < n" "0 < p"
  shows "LinearLayer_forward L st input output =
     Inr (st[output := \<lparr>shape = [p], total_size = p, dtype = FLOAT32,
          data = map (\<lambda>j. fadd (vdot32 (data (st ! input)) (weights L) j) (data (bias L) ! j))
                   [0..<p]\<rparr>])"
proof -
  let ?xs = "data (st ! input)"
  let ?in2 = "\<lparr>shape = [1, n], total_size = n, dtype = FLOAT32, data = replicate n (Fin 0)\<rparr>"
  let ?X = "\<lparr>shape = [1, n], total_size = n, dtype = FLOAT32, data = ?xs\<rparr>"
  let ?tmp = "\<lparr>shape = [1, p], total_size = p, dtype = FLOAT32,
           data = map (mm_entry ?xs (data (weights L)) n p) [0..<p]\<rparr>"
  let ?out0 = "\<lparr>shape = [p], total_size = p, dtype = FLOAT32, data = replicate p (Fin 0)\<rparr>"
  let ?f = "\<lambda>j. fadd (vdot32 ?xs (weights L) j) (data (bias L) ! j)"
  have n64: "n < 2 ^ 64" and p64: "p < 2 ^ 64"
    using factor_less [OF W(3)] pos by blast+
  have new1: "Tensor_new [1, n] FLOAT32 = Inr ?in2"
    using pos n64 by (simp add: Tensor_new_ok)
  have cpy: "memcpy (replicate n (Fin 0)) ?xs n = Inr ?xs"
    using x by (simp add: memcpy_def)
  have mm: "matmul [?X, Tensor_default, weights L] 0 2 1 = Inr [?X, ?tmp, weights L]"
    using matmul_ok [of "[?X, Tensor_default, weights L]" 0 1 n 2 p 1] pos x W n64 p64
    by simp
  have new2: "Tensor_new [p] FLOAT32 = Inr ?out0"
    using pos p64 by (simp add: Tensor_new_ok)
  have entry: "mm_entry ?xs (data (weights L)) n p j = vdot32 ?xs (weights L) j"
    if "j < p" for j
    using that by (simp add: mm_entry_def vdot32_def elem2_def W)
  let ?body = "\<lambda>i (st :: store).
                   case deref (data ?tmp) i of
                     Inl e \<Rightarrow> Inl e
                   | Inr x \<Rightarrow>
                       (case deref (data (bias L)) i of
                          Inl e \<Rightarrow> Inl e
                        | Inr b \<Rightarrow>
                            (case assign (data (st ! output)) i (fadd x b) of
                               Inl e \<Rightarrow> Inl e
                             | Inr d' \<Rightarrow> Inr (st[output := (st ! output)\<lparr>data := d'\<rparr>])))"
  have "\<exists>s'. for_loop [0..<p] ?body (st[output := ?out0]) = Inr s' \<and>
            s' = st[output := ?out0\<lparr>data := map ?f [0..<p] @ replicate (p - p) (Fin 0)\<rparr>]"
  proof (rule for_loop_invariant
      [where I = "\<lambda>i s. s = st[output := ?out0\<lparr>data := map ?f [0..<i] @ replicate (p - i) (Fin 0)\<rparr>]"])
    show "st[output := ?out0] =
        st[output := ?out0\<lparr>data := map ?f [0..<0] @ replicate (p - 0) (Fin 0)\<rparr>]" by simp
  next
    fix i s
    assume i: "i < p"
      and s: "s = st[output := ?out0\<lparr>data := map ?f [0..<i] @ replicate (p - i) (Fin 0)\<rparr>]"
    have so: "s ! output = ?out0\<lparr>data := map ?f [0..<i] @ replicate (p - i) (Fin 0)\<rparr>"
      using refs by (simp add: s)
    have upd: "(map ?f [0..<i] @ replicate (p - i) (Fin 0))[i := ?f i] =
        map ?f [0..<Suc i] @ replicate (p - Suc i) (Fin 0)"
      using i by (simp add: list_update_append replicate_Suc [symmetric] Suc_diff_Suc
          del: replicate_Suc) (metis Suc_diff_Suc list_update_code(2) replicate_Suc)
    have "?body i s = Inr (s[output := (s ! output)\<lparr>data := (data (s ! output))[i := ?f i]\<rparr>])"
      using i b by (simp add: so deref_def assign_def entry)
    also have "s[output := (s ! output)\<lparr>data := (data (s ! output))[i := ?f i]\<rparr>] =
        st[output := ?out0\<lparr>data := map ?f [0..<Suc i] @ replicate (p - Suc i) (Fin 0)\<rparr>]"
      unfolding so using upd by (simp add: s)
    finally show "\<exists>s'. ?body i s = Inr s' \<and>
        s' = st[output := ?out0\<lparr>data := map ?f [0..<Suc i] @ replicate (p - Suc i) (Fin 0)\<rparr>]"
      by simp
  qed
  then have loop: "for_loop [0..<p] ?body (st[output := ?out0]) =
      Inr (st[output := ?out0\<lparr>data := map ?f [0..<p]\<rparr>])"
    by simp
  show ?thesis
    using x W
    by (simp add: LinearLayer_forward_def rank_def new1 cpy mm new2 loop [simplified]
        del: One_nat_def)
qed

lemma forward_rank2:
  fixes st :: store
  assumes W: "shape (weights L) = [n, p]" "length (data (weights L)) = n * p" "n * p < 2 ^ 64"
    and b: "shape (bias L) = [p]" "length (data (bias L)) = p"
    and x: "shape (st ! input) = [m, n]" "length (data (st ! input)) = m * n" "m * n < 2 ^ 64"
    and refs: "input < length st" "output < length st" "output \<noteq> input"
    and mp: "m * p < 2 ^ 64"
    and pos: "0 < m" "0 < p"
  shows "LinearLayer_forward L st input output =
     Inr (st[output := \<lparr>shape = [m, p], total_size = m * p, dtype = FLOAT32,
          data = map (\<lambda>idx. fadd (mm_entry (data (st ! input)) (data (weights L)) n p idx)
                                  (data (bias L) ! (idx mod p))) [0..<m * p]\<rparr>])"
proof -
  let ?mm = "mm_entry (data (st ! input)) (data (weights L)) n p"
  define I where "I = (\<lambda>c (s :: store). \<exists>r. s = st[output := r] \<and>
     shape r = [m, p] \<and> total_size r = m * p \<and> dtype r = FLOAT32 \<and> length (data r) = m * p \<and>
     (\<forall>idx<m * p. data r ! idx =
        (if idx < c then fadd (?mm idx) (data (bias L) ! (idx mod p)) else ?mm idx)))"
  let ?out0 = "\<lparr>shape = [m, p], total_size = m * p, dtype = FLOAT32, data = map ?mm [0..<m * p]\<rparr>"
  have p64: "p < 2 ^ 64"
    using factor_less [OF mp] pos by blast
  have in_ext: "(st @ [weights L]) ! input = st ! input"
    using refs by (simp add: nth_append)
  have mmul: "matmul (st @ [weights L]) input (length st) output =
      Inr ((st @ [weights L])[output := ?out0])"
    using matmul_ok [of "st @ [weights L]" input m n "length st" p "output"] x W refs mp pos
    by (simp add: in_ext)
  have bl: "butlast ((st @ [weights L])[output := ?out0]) = st[output := ?out0]"
    using refs by (simp add: list_update_append)
  let ?body = "\<lambda>batch feature (st :: store).
                     case Tensor_at (bias L) [feature] of
                       Inl e \<Rightarrow> Inl e
                     | Inr b \<Rightarrow>
                         (case Tensor_at (st ! output) [batch, feature] of
                            Inl e \<Rightarrow> Inl e
                          | Inr x \<Rightarrow>
                              (case Tensor_at_put (st ! output) [batch, feature] (fadd x b) of
                                 Inl e \<Rightarrow> Inl e
                               | Inr r \<Rightarrow> Inr (st[output := r])))"
  have "\<exists>s'. for_loop [0..<m] (\<lambda>batch st.
                   for_loop [0..<p] (\<lambda>feature st. ?body batch feature st) st) (st[output := ?out0])
              = Inr s' \<and> I (m * p) s'"
  proof (rule for_loop_nested [where I = I])
    show "I 0 (st[output := ?out0])" unfolding I_def by (intro exI [of _ ?out0]) simp
  next
    fix i j s
    assume i: "i < m" and j: "j < p" and inv: "I (i * p + j) s"
    then obtain r where s: "s = st[output := r]"
      and sh: "shape r = [m, p]" "length (data r) = m * p"
      and r: "total_size r = m * p" "dtype r = FLOAT32"
        "\<forall>idx<m * p. data r ! idx =
           (if idx < i * p + j then fadd (?mm idx) (data (bias L) ! (idx mod p)) else ?mm idx)"
      unfolding I_def by blast
    have so: "s ! output = r" using refs by (simp add: s)
    have lt: "i * p + j < m * p" by (rule index2_less [OF i j])
    have cur: "data r ! (i * p + j) = ?mm (i * p + j)"
      using r(3) lt by simp
    let ?r' = "r\<lparr>data := (data r)[i * p + j := fadd (?mm (i * p + j)) (data (bias L) ! j)]\<rparr>"
    have "I (Suc (i * p + j)) (st[output := ?r'])"
      unfolding I_def using sh r lt j
      by (intro exI [of _ ?r']) (auto simp: nth_list_update less_Suc_eq)
    moreover have "s[output := ?r'] = st[output := ?r']" by (simp add: s)
    moreover have "?body i j s = Inr (s[output := ?r'])"
      unfolding so
      by (simp add: Tensor_at1 [OF b p64 j] Tensor_at2 [OF sh mp i j]
          Tensor_at_put2 [OF sh mp i j] cur)
    ultimately show "\<exists>s'. ?body i j s = Inr s' \<and> I (Suc (i * p + j)) s'"
      by simp
  qed
  then obtain s' where run: "for_loop [0..<m] (\<lambda>batch st.
                   for_loop [0..<p] (\<lambda>feature st. ?body batch feature st) st) (st[output := ?out0])
              = Inr s'" and fin: "I (m * p) s'"
    by blast
  from fin obtain r where s': "s' = st[output := r]"
    and r: "shape r = [m, p]" "total_size r = m * p" "dtype r = FLOAT32" "length (data r) = m * p"
      "\<forall>idx<m * p. data r ! idx = fadd (?mm idx) (data (bias L) ! (idx mod p))"
    unfolding I_def by auto
  have "data r = map (\<lambda>idx. fadd (?mm idx) (data (bias L) ! (idx mod p))) [0..<m * p]"
    using r by (intro nth_equalityI) simp_all
  then have "r = \<lparr>shape = [m, p], total_size = m * p, dtype = FLOAT32,
          data = map (\<lambda>idx. fadd (?mm idx) (data (bias L) ! (idx mod p))) [0..<m * p]\<rparr>"
    using r by (cases r) simp
  then show ?thesis
    using x W run refs
    by (simp add: LinearLayer_forward_def rank_def mmul bl Let_def s')
qed

lemma forward_errors:
  "rank (st ! x) \<noteq> 1 \<Longrightarrow> rank (st ! x) \<noteq> 2 \<Longrightarrow> LinearLayer_forward L st x y = Inl InvalidRank"
  "rank (st ! x) = 1 \<Longrightarrow> shape (st ! x) ! 0 \<noteq> shape (weights L) ! 0 \<Longrightarrow>
     LinearLayer_forward L st x y = Inl DimensionMismatch"
  "rank (st ! x) = 2 \<Longrightarrow> shape (st ! x) ! 1 \<noteq> shape (weights L) ! 0 \<Longrightarrow>
     LinearLayer_forward L st x y = Inl DimensionMismatch"
  by (simp_all add: LinearLayer_forward_def)

lemma affine_exact:
  fixes x y :: "nat \<Rightarrow> f32"
  assumes int: "\<forall>k<n. int_valued (x k) \<and> int_valued (y k)" "int_valued c"
    and small: "(\<Sum>k<n. \<bar>val (x k) * val (y k)\<bar>) + \<bar>val c\<bar> \<le> 2 ^ 24"
  shows "fadd (foldl (\<lambda>acc k. fadd acc (fmul (x k) (y k))) (Fin 0) [0..<n]) c =
           Fin ((\<Sum>k<n. val (x k) * val (y k)) + val c)"
proof -
  have s: "(\<Sum>k<n. \<bar>val (x k) * val (y k)\<bar>) \<le> 2 ^ 24" using small by linarith
  have dot: "foldl (\<lambda>acc k. fadd acc (fmul (x k) (y k))) (Fin 0) [0..<n] =
           Fin (\<Sum>k<n. val (x k) * val (y k))"
    by (rule foldl_dot_exact [OF int(1) s])
  from int(2) obtain z :: int where c: "c = Fin (of_int z)" by (auto simp: int_valued_def)
  have "val (x k) * val (y k) \<in> \<int>" if "k < n" for k
    using int(1) that by (auto simp: int_valued_def)
  then have "(\<Sum>k<n. val (x k) * val (y k)) \<in> \<int>" by (intro Ints_sum) simp
  then have "(\<Sum>k<n. val (x k) * val (y k)) + of_int z \<in> \<int>" by (intro Ints_add) simp_all
  moreover have "\<bar>(\<Sum>k<n. val (x k) * val (y k)) + of_int z\<bar> \<le> 2 ^ 24"
  proof -
    have 1: "\<bar>\<Sum>k<n. val (x k) * val (y k)\<bar> \<le> (\<Sum>k<n. \<bar>val (x k) * val (y k)\<bar>)"
      by (rule sum_abs)
    have 2: "\<bar>(\<Sum>k<n. val (x k) * val (y k)) + of_int z\<bar> \<le>
        \<bar>\<Sum>k<n. val (x k) * val (y k)\<bar> + \<bar>real_of_int z\<bar>"
      by (rule abs_triangle_ineq)
    from 1 2 small show ?thesis unfolding c val.simps by linarith
  qed
  ultimately show ?thesis by (simp add: dot c rnd_Ints)
qed

lemma rnd_tenth: "rnd (1 / 10) = Fin (13421773 / 134217728)"
  by (rule rnd_eval [of "-4"]) (simp_all add: round_even_def)

lemma rnd_fifth: "rnd (1 / 5) = Fin (13421773 / 67108864)"
  by (rule rnd_eval [of "-3"]) (simp_all add: round_even_def)

lemma rnd_three_tenths: "rnd (3 / 10) = Fin (5033165 / 16777216)"
  by (rule rnd_eval [of "-2"]) (simp_all add: round_even_def)

lemma rnd_9_1: "rnd (91 / 10) = Fin (4771021 / 524288)"
  by (rule rnd_eval [of 3]) (simp_all add: round_even_def)

lemma rnd_12_2: "rnd (61 / 5) = Fin (12792627 / 1048576)"
  by (rule rnd_eval [of 3]) (simp_all add: round_even_def)

lemma rnd_15_3: "rnd (153 / 10) = Fin (16043213 / 1048576)"
  by (rule rnd_eval [of 3]) (simp_all add: round_even_def)

lemma rnd_sum_9_1: "rnd (1221381325 / 134217728) = Fin (4771021 / 524288)"
  by (rule rnd_eval [of 3]) (simp_all add: round_even_def)

lemma rnd_sum_12_2: "rnd (818728141 / 67108864) = Fin (12792627 / 1048576)"
  by (rule rnd_eval [of 3]) (simp_all add: round_even_def)

lemma rnd_sum_15_3: "rnd (256691405 / 16777216) = Fin (16043213 / 1048576)"
  by (rule rnd_eval [of 3]) (simp_all add: round_even_def)

lemma scenario_eval:
  "LinearLayer_forward
     \<lparr>weights = \<lparr>shape = [2, 3], total_size = 6, dtype = FLOAT32,
                 data = [Fin 1, Fin 2, Fin 3, Fin 4, Fin 5, Fin 6]\<rparr>,
      bias = \<lparr>shape = [3], total_size = 3, dtype = FLOAT32,
              data = [Fin (13421773 / 134217728), Fin (13421773 / 67108864),
                      Fin (5033165 / 16777216)]\<rparr>\<rparr>
     [\<lparr>shape = [2], total_size = 2, dtype = FLOAT32, data = [Fin 1, Fin 2]\<rparr>, Tensor_default] 0 1 =
   Inr [\<lparr>shape = [2], total_size = 2, dtype = FLOAT32, data = [Fin 1, Fin 2]\<rparr>,
        \<lparr>shape = [3], total_size = 3, dtype = FLOAT32,
          data = [Fin (4771021 / 524288), Fin (12792627 / 1048576), Fin (16043213 / 1048576)]\<rparr>]"
  by (subst forward_rank1 [where n = 2 and p = 3])
     (simp_all add: vdot32_def elem2_def upt_conv_Cons rnd_sum_9_1 rnd_sum_12_2 rnd_sum_15_3)

text \<open>
  Claim C2, as stated, fails in two ways. (1) The formula is evaluated in binary32. In the
  scenario of the claim the bias holds \<^verbatim>\<open>0.1f\<close>, \<^verbatim>\<open>0.2f\<close>, \<^verbatim>\<open>0.3f\<close>, which are
  \<open>13421773 / 2^27\<close>, \<open>13421773 / 2^26\<close> and \<open>5033165 / 2^24\<close>, and the first output is
  \<open>4771021 / 2^19\<close>: neither \<open>(1 * 1 + 2 * 4) + 13421773 / 2^27\<close>, the value of the formula,
  nor \<open>9.1\<close>. (2) On a rank-2 input, \<^verbatim>\<open>forward(x, x)\<close> overwrites \<open>x\<close> with zeros before
  reading it: with \<open>W = [[2]]\<close>, \<open>b = [1]\<close> and \<open>x = [[1]]\<close> it leaves \<open>[[1]]\<close>, not \<open>[[3]]\<close>.
\<close>

theorem linear_forward_counterexample:
  "LinearLayer_forward
     \<lparr>weights = \<lparr>shape = [2, 3], total_size = 6, dtype = FLOAT32,
                 data = [Fin 1, Fin 2, Fin 3, Fin 4, Fin 5, Fin 6]\<rparr>,
      bias = \<lparr>shape = [3], total_size = 3, dtype = FLOAT32,
              data = [Fin (13421773 / 134217728), Fin (13421773 / 67108864),
                      Fin (5033165 / 16777216)]\<rparr>\<rparr>
     [\<lparr>shape = [2], total_size = 2, dtype = FLOAT32, data = [Fin 1, Fin 2]\<rparr>, Tensor_default] 0 1 =
   Inr [\<lparr>shape = [2], total_size = 2, dtype = FLOAT32, data = [Fin 1, Fin 2]\<rparr>,
        \<lparr>shape = [3], total_size = 3, dtype = FLOAT32,
          data = [Fin (4771021 / 524288), Fin (12792627 / 1048576), Fin (16043213 / 1048576)]\<rparr>] \<and>
   Fin (4771021 / 524288) \<noteq> Fin ((1 * 1 + 2 * 4) + 13421773 / 134217728) \<and>
   Fin (4771021 / 524288) \<noteq> Fin (91 / 10) \<and>
   LinearLayer_forward
     \<lparr>weights = \<lparr>shape = [1, 1], total_size = 1, dtype = FLOAT32, data = [Fin 2]\<rparr>,
      bias = \<lparr>shape = [1], total_size = 1, dtype = FLOAT32, data = [Fin 1]\<rparr>\<rparr>
     [\<lparr>shape = [1, 1], total_size = 1, dtype = FLOAT32, data = [Fin 1]\<rparr>] 0 0 =
   Inr [\<lparr>shape = [1, 1], total_size = 1, dtype = FLOAT32, data = [Fin 1]\<rparr>]"
proof -
  have idx: "calculateIndex t [0, 0] = Inr 0" if "shape t = [1, 1]" for t :: "f32 Tensor"
    using calculateIndex2 [of t 1 1 0 0] that by simp
  have idx1: "calculateIndex t [0] = Inr 0" if "shape t = [1]" for t :: "f32 Tensor"
    using calculateIndex_fits [of "[0]" t] that by simp
  have al: "LinearLayer_forward
     \<lparr>weights = \<lparr>shape = [1, 1], total_size = 1, dtype = FLOAT32, data = [Fin 2]\<rparr>,
      bias = \<lparr>shape = [1], total_size = 1, dtype = FLOAT32, data = [Fin 1]\<rparr>\<rparr>
     [\<lparr>shape = [1, 1], total_size = 1, dtype = FLOAT32, data = [Fin 1]\<rparr>] 0 0 =
   Inr [\<lparr>shape = [1, 1], total_size = 1, dtype = FLOAT32, data = [Fin 1]\<rparr>]"
    by (simp add: LinearLayer_forward_def matmul_def rank_def Tensor_new_def validateShape_def
        calculateTotalSize_def size_mul_def Tensor_at_def Tensor_at_put_def idx idx1 deref_def
        assign_def Let_def)
  show ?thesis
    using scenario_eval al by simp
qed

text \<open>
  Claim C2, amended. Let the layer \<open>L\<close> be constructed from a weight \<open>W\<close> and a bias \<open>b\<close> that
  satisfy the tensor invariants (so \<open>W\<close> has shape \<open>[in, out]\<close> and \<open>b\<close> shape \<open>[out]\<close>).
  \<^verbatim>\<open>forward\<close> fails with \<open>InvalidRank\<close> on an input of rank other than 1 or 2 and with
  \<open>DimensionMismatch\<close> when the feature dimension of the input differs from \<open>in\<close>. On a
  rank-1 input \<open>x\<close> of length \<open>in\<close> it leaves in \<open>output\<close> (which may be the input object) a
  rank-1 tensor \<open>y\<close> of length \<open>out\<close>, where \<open>y[j]\<close> is the binary32 sum of the rounded products
  \<open>x[i] * W[i,j]\<close>, accumulated from \<^verbatim>\<open>0.0f\<close> in the order of \<open>i\<close>, plus \<open>b[j]\<close>, rounded. On a
  rank-2 input of shape \<open>[batch, in]\<close>, with \<open>output\<close> an object other than the input and
  \<open>batch * out\<close> below \<open>2 ^ 64\<close>, it leaves a tensor of shape \<open>[batch, out]\<close> with the same
  value in every row. The value is the exact \<open>(\<Sum>i. x[i] * W[i,j]) + b[j]\<close> when the elements
  involved are integers whose products and bias have magnitudes that sum to at most
  \<open>2 ^ 24\<close>. The instance that follows the theorem is the scenario of the specification:
  \<open>W\<close> with the rows \<open>[1,2,3]\<close> and \<open>[4,5,6]\<close>, the bias \<^verbatim>\<open>0.1f\<close>, \<^verbatim>\<open>0.2f\<close>, \<^verbatim>\<open>0.3f\<close>, input
  \<open>[1,2]\<close>; the output holds the binary32 values nearest to 9.1, 12.2 and 15.3.
\<close>

theorem linear_forward_correct:
  "tensor_inv W \<and> tensor_inv b \<and> total_size W < 2 ^ 64 \<and> LinearLayer_new W b = Inr L \<longrightarrow>
   rank W = 2 \<and> rank b = 1 \<and> shape b = [shape W ! 1] \<and>
   (rank (st ! input) \<noteq> 1 \<and> rank (st ! input) \<noteq> 2 \<longrightarrow>
      LinearLayer_forward L st input output = Inl InvalidRank) \<and>
   (rank (st ! input) = 1 \<and> shape (st ! input) ! 0 \<noteq> shape W ! 0 \<longrightarrow>
      LinearLayer_forward L st input output = Inl DimensionMismatch) \<and>
   (rank (st ! input) = 2 \<and> shape (st ! input) ! 1 \<noteq> shape W ! 0 \<longrightarrow>
      LinearLayer_forward L st input output = Inl DimensionMismatch) \<and>
   (output < length st \<and> tensor_inv (st ! input) \<and> rank (st ! input) = 1 \<and>
    shape (st ! input) ! 0 = shape W ! 0 \<longrightarrow>
      (\<exists>y. LinearLayer_forward L st input output = Inr (st[output := y]) \<and>
           shape y = [shape W ! 1] \<and> dtype y = FLOAT32 \<and> tensor_inv y \<and>
           data y = map (\<lambda>j. fadd (vdot32 (data (st ! input)) W j) (data b ! j))
                      [0..<shape W ! 1] \<and>
           (\<forall>j < shape W ! 1.
              Tensor_at y [j] = Inr (fadd (vdot32 (data (st ! input)) W j) (data b ! j)) \<and>
              ((\<forall>i < shape W ! 0. int_valued (data (st ! input) ! i) \<and> int_valued (elem2 W i j)) \<and>
               int_valued (data b ! j) \<and>
               (\<Sum>i < shape W ! 0. \<bar>val (data (st ! input) ! i) * val (elem2 W i j)\<bar>) +
                 \<bar>val (data b ! j)\<bar> \<le> 2 ^ 24 \<longrightarrow>
               Tensor_at y [j] =
                 Inr (Fin ((\<Sum>i < shape W ! 0. val (data (st ! input) ! i) * val (elem2 W i j)) +
                           val (data b ! j))))))) \<and>
   (input < length st \<and> output < length st \<and> output \<noteq> input \<and>
    tensor_inv (st ! input) \<and> rank (st ! input) = 2 \<and> shape (st ! input) ! 1 = shape W ! 0 \<and>
    total_size (st ! input) < 2 ^ 64 \<and> shape (st ! input) ! 0 * shape W ! 1 < 2 ^ 64 \<longrightarrow>
      (\<exists>y. LinearLayer_forward L st input output = Inr (st[output := y]) \<and>
           shape y = [shape (st ! input) ! 0, shape W ! 1] \<and> dtype y = FLOAT32 \<and> tensor_inv y \<and>
           (\<forall>r < shape (st ! input) ! 0. \<forall>j < shape W ! 1.
              Tensor_at y [r, j] = Inr (fadd (dot32 (st ! input) W r j) (data b ! j)) \<and>
              ((\<forall>i < shape W ! 0. int_valued (elem2 (st ! input) r i) \<and> int_valued (elem2 W i j)) \<and>
               int_valued (data b ! j) \<and>
               (\<Sum>i < shape W ! 0. \<bar>val (elem2 (st ! input) r i) * val (elem2 W i j)\<bar>) +
                 \<bar>val (data b ! j)\<bar> \<le> 2 ^ 24 \<longrightarrow>
               Tensor_at y [r, j] =
                 Inr (Fin ((\<Sum>i < shape W ! 0. val (elem2 (st ! input) r i) * val (elem2 W i j)) +
                           val (data b ! j)))))))"
proof (intro impI)
  define x where "x = st ! input"
  assume a: "tensor_inv W \<and> tensor_inv b \<and> total_size W < 2 ^ 64 \<and> LinearLayer_new W b = Inr L"
  then have L: "weights L = W" "bias L = b" and rk: "rank W = 2" "rank b = 1"
    and wb: "shape W ! 1 = shape b ! 0"
    using LinearLayer_new_ok [of W b L] by simp_all
  define n p where "n = shape W ! 0" and "p = shape W ! 1"
  have shW: "shape W = [n, p]" using rank2_shape [OF rk(1)] by (simp add: n_def p_def)
  have shb: "shape b = [p]" using rank1_shape [OF rk(2)] wb by (simp add: p_def)
  have lenW: "length (data W) = n * p" and lenb: "length (data b) = p" and pos: "0 < n" "0 < p"
    and fitW: "n * p < 2 ^ 64"
    using a tensor_inv_rank2 [OF _ shW] tensor_inv_rank1 [OF _ shb] by simp_all
  have p64: "p < 2 ^ 64" using factor_less [OF fitW] pos by blast
  have r1: "\<exists>y. LinearLayer_forward L st input output = Inr (st[output := y]) \<and>
           shape y = [p] \<and> dtype y = FLOAT32 \<and> tensor_inv y \<and>
           data y = map (\<lambda>j. fadd (vdot32 (data x) W j) (data b ! j)) [0..<p] \<and>
           (\<forall>j<p. Tensor_at y [j] = Inr (fadd (vdot32 (data x) W j) (data b ! j)) \<and>
              ((\<forall>i<n. int_valued (data x ! i) \<and> int_valued (elem2 W i j)) \<and>
               int_valued (data b ! j) \<and>
               (\<Sum>i<n. \<bar>val (data x ! i) * val (elem2 W i j)\<bar>) + \<bar>val (data b ! j)\<bar> \<le> 2 ^ 24 \<longrightarrow>
               Tensor_at y [j] =
                 Inr (Fin ((\<Sum>i<n. val (data x ! i) * val (elem2 W i j)) + val (data b ! j)))))"
    if hx: "output < length st \<and> tensor_inv x \<and> rank x = 1 \<and> shape x ! 0 = n"
  proof -
    have shx: "shape x = [n]" using rank1_shape [of x] hx by simp
    let ?y = "\<lparr>shape = [p], total_size = p, dtype = FLOAT32,
          data = map (\<lambda>j. fadd (vdot32 (data x) W j) (data b ! j)) [0..<p]\<rparr>"
    have fw: "LinearLayer_forward L st input output = Inr (st[output := ?y])"
      using forward_rank1 [of L n p st input "output"] hx tensor_inv_rank1 [OF _ shx]
        shW lenW fitW lenb pos shx
      by (simp add: L x_def)
    have inv: "tensor_inv ?y" using pos by (simp add: tensor_inv_def)
    have at: "Tensor_at ?y [j] = Inr (fadd (vdot32 (data x) W j) (data b ! j))" if "j < p" for j
      using that p64 by (simp add: Tensor_at1 [where n = p])
    have ex: "Tensor_at ?y [j] =
        Inr (Fin ((\<Sum>i<n. val (data x ! i) * val (elem2 W i j)) + val (data b ! j)))"
      if "j < p" "\<forall>i<n. int_valued (data x ! i) \<and> int_valued (elem2 W i j)"
        "int_valued (data b ! j)"
        "(\<Sum>i<n. \<bar>val (data x ! i) * val (elem2 W i j)\<bar>) + \<bar>val (data b ! j)\<bar> \<le> 2 ^ 24" for j
      using at [OF that(1)] affine_exact [OF that(2,3,4)] by (simp add: vdot32_def n_def)
    show ?thesis
      using fw inv at ex by (intro exI [of _ ?y]) simp
  qed
  have r2: "\<exists>y. LinearLayer_forward L st input output = Inr (st[output := y]) \<and>
           shape y = [shape x ! 0, p] \<and> dtype y = FLOAT32 \<and> tensor_inv y \<and>
           (\<forall>r < shape x ! 0. \<forall>j<p.
              Tensor_at y [r, j] = Inr (fadd (dot32 x W r j) (data b ! j)) \<and>
              ((\<forall>i<n. int_valued (elem2 x r i) \<and> int_valued (elem2 W i j)) \<and>
               int_valued (data b ! j) \<and>
               (\<Sum>i<n. \<bar>val (elem2 x r i) * val (elem2 W i j)\<bar>) + \<bar>val (data b ! j)\<bar> \<le> 2 ^ 24 \<longrightarrow>
               Tensor_at y [r, j] =
                 Inr (Fin ((\<Sum>i<n. val (elem2 x r i) * val (elem2 W i j)) + val (data b ! j)))))"
    if hx: "input < length st \<and> output < length st \<and> output \<noteq> input \<and>
      tensor_inv x \<and> rank x = 2 \<and> shape x ! 1 = n \<and>
      total_size x < 2 ^ 64 \<and> shape x ! 0 * p < 2 ^ 64"
  proof -
    define m where "m = shape x ! 0"
    have shx: "shape x = [m, n]" using rank2_shape [of x] hx by (simp add: m_def)
    have lenx: "length (data x) = m * n" and m: "0 < m" and fitx: "m * n < 2 ^ 64"
      and mp: "m * p < 2 ^ 64"
      using hx tensor_inv_rank2 [OF _ shx] by (simp_all add: m_def)
    let ?y = "\<lparr>shape = [m, p], total_size = m * p, dtype = FLOAT32,
          data = map (\<lambda>idx. fadd (mm_entry (data x) (data W) n p idx) (data b ! (idx mod p)))
                   [0..<m * p]\<rparr>"
    have fw: "LinearLayer_forward L st input output = Inr (st[output := ?y])"
      using forward_rank2 [of L n p st input m "output"] shW lenW fitW shb lenb shx lenx fitx
        hx mp m pos
      by (simp add: L x_def)
    have inv: "tensor_inv ?y" using pos m by (simp add: tensor_inv_def)
    have at: "Tensor_at ?y [r, j] = Inr (fadd (dot32 x W r j) (data b ! j))"
      if rj: "r < m" "j < p" for r j
    proof -
      have "Tensor_at ?y [r, j] = Inr (data ?y ! (r * p + j))"
        using rj mp by (intro Tensor_at2 [where m = m]) simp_all
      then show ?thesis
        using rj index2_less [OF rj] by (simp add: mm_entry_def dot32_def elem2_def shx shW)
    qed
    have ex: "Tensor_at ?y [r, j] =
        Inr (Fin ((\<Sum>i<n. val (elem2 x r i) * val (elem2 W i j)) + val (data b ! j)))"
      if "r < m" "j < p" "\<forall>i<n. int_valued (elem2 x r i) \<and> int_valued (elem2 W i j)"
        "int_valued (data b ! j)"
        "(\<Sum>i<n. \<bar>val (elem2 x r i) * val (elem2 W i j)\<bar>) + \<bar>val (data b ! j)\<bar> \<le> 2 ^ 24" for r j
      using at [OF that(1,2)] affine_exact [OF that(3,4,5)] by (simp add: dot32_def shx)
    show ?thesis
      using fw inv at ex by (intro exI [of _ ?y]) (simp add: m_def [symmetric])
  qed
  show "rank W = 2 \<and> rank b = 1 \<and> shape b = [shape W ! 1] \<and>
   (rank (st ! input) \<noteq> 1 \<and> rank (st ! input) \<noteq> 2 \<longrightarrow>
      LinearLayer_forward L st input output = Inl InvalidRank) \<and>
   (rank (st ! input) = 1 \<and> shape (st ! input) ! 0 \<noteq> shape W ! 0 \<longrightarrow>
      LinearLayer_forward L st input output = Inl DimensionMismatch) \<and>
   (rank (st ! input) = 2 \<and> shape (st ! input) ! 1 \<noteq> shape W ! 0 \<longrightarrow>
      LinearLayer_forward L st input output = Inl DimensionMismatch) \<and>
   (output < length st \<and> tensor_inv (st ! input) \<and> rank (st ! input) = 1 \<and>
    shape (st ! input) ! 0 = shape W ! 0 \<longrightarrow>
      (\<exists>y. LinearLayer_forward L st input output = Inr (st[output := y]) \<and>
           shape y = [shape W ! 1] \<and> dtype y = FLOAT32 \<and> tensor_inv y \<and>
           data y = map (\<lambda>j. fadd (vdot32 (data (st ! input)) W j) (data b ! j))
                      [0..<shape W ! 1] \<and>
           (\<forall>j < shape W ! 1.
              Tensor_at y [j] = Inr (fadd (vdot32 (data (st ! input)) W j) (data b ! j)) \<and>
              ((\<forall>i < shape W ! 0. int_valued (data (st ! input) ! i) \<and> int_valued (elem2 W i j)) \<and>
               int_valued (data b ! j) \<and>
               (\<Sum>i < shape W ! 0. \<bar>val (data (st ! input) ! i) * val (elem2 W i j)\<bar>) +
                 \<bar>val (data b ! j)\<bar> \<le> 2 ^ 24 \<longrightarrow>
               Tensor_at y [j] =
                 Inr (Fin ((\<Sum>i < shape W ! 0. val (data (st ! input) ! i) * val (elem2 W i j)) +
                           val (data b ! j))))))) \<and>
   (input < length st \<and> output < length st \<and> output \<noteq> input \<and>
    tensor_inv (st ! input) \<and> rank (st ! input) = 2 \<and> shape (st ! input) ! 1 = shape W ! 0 \<and>
    total_size (st ! input) < 2 ^ 64 \<and> shape (st ! input) ! 0 * shape W ! 1 < 2 ^ 64 \<longrightarrow>
      (\<exists>y. LinearLayer_forward L st input output = Inr (st[output := y]) \<and>
           shape y = [shape (st ! input) ! 0, shape W ! 1] \<and> dtype y = FLOAT32 \<and> tensor_inv y \<and>
           (\<forall>r < shape (st ! input) ! 0. \<forall>j < shape W ! 1.
              Tensor_at y [r, j] = Inr (fadd (dot32 (st ! input) W r j) (data b ! j)) \<and>
              ((\<forall>i < shape W ! 0. int_valued (elem2 (st ! input) r i) \<and> int_valued (elem2 W i j)) \<and>
               int_valued (data b ! j) \<and>
               (\<Sum>i < shape W ! 0. \<bar>val (elem2 (st ! input) r i) * val (elem2 W i j)\<bar>) +
                 \<bar>val (data b ! j)\<bar> \<le> 2 ^ 24 \<longrightarrow>
               Tensor_at y [r, j] =
                 Inr (Fin ((\<Sum>i < shape W ! 0. val (elem2 (st ! input) r i) * val (elem2 W i j)) +
                           val (data b ! j)))))))"
    using rk shb r1 r2 forward_errors [of st input L "output"]
    unfolding n_def [symmetric] p_def [symmetric] x_def [symmetric] L
    by (intro conjI impI) simp_all
qed

theorem linear_forward_correct_witness:
  "rnd (1 / 10) = Fin (13421773 / 134217728) \<and> rnd (2 / 10) = Fin (13421773 / 67108864) \<and>
   rnd (3 / 10) = Fin (5033165 / 16777216) \<and>
   LinearLayer_new
     \<lparr>shape = [2, 3], total_size = 6, dtype = FLOAT32,
       data = [Fin 1, Fin 2, Fin 3, Fin 4, Fin 5, Fin 6]\<rparr>
     \<lparr>shape = [3], total_size = 3, dtype = FLOAT32,
       data = [Fin (13421773 / 134217728), Fin (13421773 / 67108864), Fin (5033165 / 16777216)]\<rparr> =
     Inr \<lparr>weights = \<lparr>shape = [2, 3], total_size = 6, dtype = FLOAT32,
                      data = [Fin 1, Fin 2, Fin 3, Fin 4, Fin 5, Fin 6]\<rparr>,
          bias = \<lparr>shape = [3], total_size = 3, dtype = FLOAT32,
                   data = [Fin (13421773 / 134217728), Fin (13421773 / 67108864),
                           Fin (5033165 / 16777216)]\<rparr>\<rparr> \<and>
   LinearLayer_forward
     \<lparr>weights = \<lparr>shape = [2, 3], total_size = 6, dtype = FLOAT32,
                 data = [Fin 1, Fin 2, Fin 3, Fin 4, Fin 5, Fin 6]\<rparr>,
      bias = \<lparr>shape = [3], total_size = 3, dtype = FLOAT32,
              data = [Fin (13421773 / 134217728), Fin (13421773 / 67108864),
                      Fin (5033165 / 16777216)]\<rparr>\<rparr>
     [\<lparr>shape = [2], total_size = 2, dtype = FLOAT32, data = [Fin 1, Fin 2]\<rparr>, Tensor_default] 0 1 =
     Inr [\<lparr>shape = [2], total_size = 2, dtype = FLOAT32, data = [Fin 1, Fin 2]\<rparr>,
          \<lparr>shape = [3], total_size = 3, dtype = FLOAT32,
            data = [Fin (4771021 / 524288), Fin (12792627 / 1048576), Fin (16043213 / 1048576)]\<rparr>] \<and>
   rnd (91 / 10) = Fin (4771021 / 524288) \<and> rnd (122 / 10) = Fin (12792627 / 1048576) \<and>
   rnd (153 / 10) = Fin (16043213 / 1048576) \<and>
   LinearLayer_forward
     \<lparr>weights = \<lparr>shape = [2, 3], total_size = 6, dtype = FLOAT32,
                 data = [Fin 1, Fin 2, Fin 3, Fin 4, Fin 5, Fin 6]\<rparr>,
      bias = \<lparr>shape = [3], total_size = 3, dtype = FLOAT32,
              data = [Fin (13421773 / 134217728), Fin (13421773 / 67108864),
                      Fin (5033165 / 16777216)]\<rparr>\<rparr>
     [\<lparr>shape = [3], total_size = 3, dtype = FLOAT32, data = [Fin 1, Fin 2, Fin 3]\<rparr>,
      Tensor_default] 0 1 = Inl DimensionMismatch \<and>
   LinearLayer_forward
     \<lparr>weights = \<lparr>shape = [2, 3], total_size = 6, dtype = FLOAT32,
                 data = [Fin 1, Fin 2, Fin 3, Fin 4, Fin 5, Fin 6]\<rparr>,
      bias = \<lparr>shape = [3], total_size = 3, dtype = FLOAT32,
              data = [Fin (13421773 / 134217728), Fin (13421773 / 67108864),
                      Fin (5033165 / 16777216)]\<rparr>\<rparr>
     [\<lparr>shape = [1, 1, 2], total_size = 2, dtype = FLOAT32, data = [Fin 1, Fin 2]\<rparr>,
      Tensor_default] 0 1 = Inl InvalidRank \<and>
   (\<exists>y. LinearLayer_forward
     \<lparr>weights = \<lparr>shape = [2, 3], total_size = 6, dtype = FLOAT32,
                 data = [Fin 1, Fin 2, Fin 3, Fin 4, Fin 5, Fin 6]\<rparr>,
      bias = \<lparr>shape = [3], total_size = 3, dtype = FLOAT32,
              data = [Fin (13421773 / 134217728), Fin (13421773 / 67108864),
                      Fin (5033165 / 16777216)]\<rparr>\<rparr>
     [\<lparr>shape = [1, 2], total_size = 2, dtype = FLOAT32, data = [Fin 1, Fin 2]\<rparr>,
      Tensor_default] 0 1 =
       Inr [\<lparr>shape = [1, 2], total_size = 2, dtype = FLOAT32, data = [Fin 1, Fin 2]\<rparr>, y] \<and>
     shape y = [1, 3] \<and> Tensor_at y [0, 0] = Inr (Fin (4771021 / 524288)))"
proof -
  let ?W = "\<lparr>shape = [2, 3], total_size = 6, dtype = FLOAT32,
       data = [Fin 1, Fin 2, Fin 3, Fin 4, Fin 5, Fin 6]\<rparr>"
  let ?b = "\<lparr>shape = [3], total_size = 3, dtype = FLOAT32,
       data = [Fin (13421773 / 134217728), Fin (13421773 / 67108864), Fin (5033165 / 16777216)]\<rparr>"
  let ?L = "\<lparr>weights = ?W, bias = ?b\<rparr>"
  let ?x = "\<lparr>shape = [2], total_size = 2, dtype = FLOAT32, data = [Fin 1, Fin 2]\<rparr>"
  let ?x2 = "\<lparr>shape = [1, 2], total_size = 2, dtype = FLOAT32, data = [Fin 1, Fin 2]\<rparr>"
  let ?x3 = "\<lparr>shape = [3], total_size = 3, dtype = FLOAT32, data = [Fin 1, Fin 2, Fin 3]\<rparr>"
  let ?x4 = "\<lparr>shape = [1, 1, 2], total_size = 2, dtype = FLOAT32, data = [Fin 1, Fin 2]\<rparr>"
  have lits: "rnd (1 / 10) = Fin (13421773 / 134217728) \<and> rnd (2 / 10) = Fin (13421773 / 67108864) \<and>
   rnd (3 / 10) = Fin (5033165 / 16777216) \<and>
   rnd (91 / 10) = Fin (4771021 / 524288) \<and> rnd (122 / 10) = Fin (12792627 / 1048576) \<and>
   rnd (153 / 10) = Fin (16043213 / 1048576)"
    using rnd_tenth rnd_fifth rnd_three_tenths rnd_9_1 rnd_12_2 rnd_15_3 by simp
  have new: "LinearLayer_new ?W ?b = Inr ?L"
    by (simp add: LinearLayer_new_def Tensor_copy_def rank_def)
  have hyp: "tensor_inv ?W \<and> tensor_inv ?b \<and> total_size ?W < 2 ^ 64 \<and> LinearLayer_new ?W ?b = Inr ?L"
    using new by (simp add: tensor_inv_def)
  let ?st = "[?x, Tensor_default]"
  have hx: "(1::nat) < length ?st \<and> tensor_inv (?st ! 0) \<and> rank (?st ! 0) = 1 \<and>
      shape (?st ! 0) ! 0 = shape ?W ! 0"
    by (simp add: tensor_inv_def rank_def)
  from linear_forward_correct [of ?W ?b ?L ?st 0 1] hyp hx
  obtain y where y: "LinearLayer_forward ?L ?st 0 1 = Inr (?st[1 := y])" "shape y = [shape ?W ! 1]"
      "dtype y = FLOAT32" "tensor_inv y"
      "data y = map (\<lambda>j. fadd (vdot32 (data (?st ! 0)) ?W j) (data ?b ! j)) [0..<shape ?W ! 1]"
    by blast
  have "data y = [Fin (4771021 / 524288), Fin (12792627 / 1048576), Fin (16043213 / 1048576)]"
    unfolding y(5)
    by (simp add: vdot32_def elem2_def upt_conv_Cons rnd_sum_9_1 rnd_sum_12_2 rnd_sum_15_3)
  with y have "y = \<lparr>shape = [3], total_size = 3, dtype = FLOAT32,
      data = [Fin (4771021 / 524288), Fin (12792627 / 1048576), Fin (16043213 / 1048576)]\<rparr>"
    by (cases y) (simp add: tensor_inv_def)
  with y(1) have 1: "LinearLayer_forward ?L ?st 0 1 =
      Inr [?x, \<lparr>shape = [3], total_size = 3, dtype = FLOAT32,
        data = [Fin (4771021 / 524288), Fin (12792627 / 1048576), Fin (16043213 / 1048576)]\<rparr>]"
    by simp
  have 2: "LinearLayer_forward ?L [?x3, Tensor_default] 0 1 = Inl DimensionMismatch"
    using linear_forward_correct [of ?W ?b ?L "[?x3, Tensor_default]" 0 1] hyp
    by (simp add: rank_def)
  have 3: "LinearLayer_forward ?L [?x4, Tensor_default] 0 1 = Inl InvalidRank"
    using linear_forward_correct [of ?W ?b ?L "[?x4, Tensor_default]" 0 1] hyp
    by (simp add: rank_def)
  let ?st2 = "[?x2, Tensor_default]"
  have hx2: "(0::nat) < length ?st2 \<and> (1::nat) < length ?st2 \<and> (1::nat) \<noteq> 0 \<and>
      tensor_inv (?st2 ! 0) \<and> rank (?st2 ! 0) = 2 \<and> shape (?st2 ! 0) ! 1 = shape ?W ! 0 \<and>
      total_size (?st2 ! 0) < 2 ^ 64 \<and> shape (?st2 ! 0) ! 0 * shape ?W ! 1 < 2 ^ 64"
    by (simp add: tensor_inv_def rank_def)
  from linear_forward_correct [of ?W ?b ?L ?st2 0 1] hyp hx2
  obtain y2 where y2: "LinearLayer_forward ?L ?st2 0 1 = Inr (?st2[1 := y2])"
      "shape y2 = [shape (?st2 ! 0) ! 0, shape ?W ! 1]"
      "\<forall>r < shape (?st2 ! 0) ! 0. \<forall>j < shape ?W ! 1.
         Tensor_at y2 [r, j] = Inr (fadd (dot32 (?st2 ! 0) ?W r j) (data ?b ! j))"
    by blast
  from y2(3) have "Tensor_at y2 [0, 0] = Inr (fadd (dot32 (?st2 ! 0) ?W 0 0) (data ?b ! 0))"
    by simp
  then have "Tensor_at y2 [0, 0] = Inr (Fin (4771021 / 524288))"
    by (simp add: dot32_def elem2_def upt_conv_Cons rnd_sum_9_1)
  with y2 have 4: "\<exists>y. LinearLayer_forward ?L ?st2 0 1 = Inr [?x2, y] \<and>
     shape y = [1, 3] \<and> Tensor_at y [0, 0] = Inr (Fin (4771021 / 524288))"
    by (intro exI [of _ y2]) simp
  from lits new 1 2 3 4 show ?thesis by blast
qed

section \<open>Softmax\<close>

lemma for_loop_max:
  fixes d :: "f32 list"
  assumes "\<forall>i\<in>set js. i < length d"
  shows "for_loop js (\<lambda>i max_val.
               case deref d i of
                 Inl e \<Rightarrow> Inl e
               | Inr x \<Rightarrow> Inr (fmax max_val x)) m = Inr (foldl fmax m (map (nth d) js))"
  using assms
  by (induction js arbitrary: m) (simp_all add: deref_def)

lemma max_loop:
  fixes d :: "f32 list"
  assumes "d \<noteq> []"
  shows "for_loop [1..<length d] (\<lambda>i max_val.
               case deref d i of
                 Inl e \<Rightarrow> Inl e
               | Inr x \<Rightarrow> Inr (fmax max_val x)) (d ! 0) = Inr (max32 d)"
proof -
  obtain x xs where d: "d = x # xs" using assms by (cases d) auto
  have "map (nth d) [1..<length d] = map (nth d \<circ> Suc) [0..<length xs]"
    unfolding d by (simp add: map_Suc_upt [symmetric] del: upt_Suc)
  also have "\<dots> = xs"
    by (simp add: d o_def map_nth)
  finally have eq1: "map (nth d) [1..<length d] = xs" .
  have eq2: "d ! 0 = x" by (simp add: d)
  have eq3: "max32 d = foldl fmax x xs"
    by (simp add: max32_def d)
  have "for_loop [1..<length d] (\<lambda>i max_val.
               case deref d i of
                 Inl e \<Rightarrow> Inl e
               | Inr x \<Rightarrow> Inr (fmax max_val x)) (d ! 0)
        = Inr (foldl fmax (d ! 0) (map (nth d) [1..<length d]))"
    by (rule for_loop_max) simp
  then show ?thesis by (simp only: eq1 eq2 eq3)
qed

lemma exp_sum_loop:
  fixes d :: "f32 list"
  shows "for_loop [0..<length d] (\<lambda>i (d, acc).
               case deref d i of
                 Inl e \<Rightarrow> Inl e
               | Inr x \<Rightarrow>
                   (case assign d i (f x) of
                      Inl e \<Rightarrow> Inl e
                    | Inr d' \<Rightarrow> Inr (d', fadd acc (f x)))) (d, Fin 0)
         = Inr (map f d, sum32 (map f d))"
proof -
  let ?body = "\<lambda>i (d, acc).
               case deref d i of
                 Inl e \<Rightarrow> Inl e
               | Inr x \<Rightarrow>
                   (case assign d i (f x) of
                      Inl e \<Rightarrow> Inl e
                    | Inr d' \<Rightarrow> Inr (d', fadd acc (f x)))"
  let ?I = "\<lambda>i s. s = (map f (take i d) @ drop i d, sum32 (map f (take i d)))"
  have "\<exists>s'. for_loop [0..<length d] ?body (d, Fin 0) = Inr s' \<and> ?I (length d) s'"
  proof (rule for_loop_invariant [where I = ?I])
    show "?I 0 (d, Fin 0)" by (simp add: sum32_def)
  next
    fix i s
    assume i: "i < length d" and s: "?I i s"
    have nth: "(map f (take i d) @ drop i d) ! i = d ! i"
      using i by (simp add: nth_append)
    have upd: "(map f (take i d) @ drop i d)[i := f (d ! i)] = map f (take (Suc i) d) @ drop (Suc i) d"
      using i by (simp add: list_update_append take_Suc_conv_app_nth Cons_nth_drop_Suc [symmetric])
    show "\<exists>s'. ?body i s = Inr s' \<and> ?I (Suc i) s'"
      using i by (simp add: s deref_def assign_def nth upd take_Suc_conv_app_nth sum32_def)
  qed
  then show ?thesis by simp
qed

lemma scale_loop:
  fixes d :: "f32 list"
  shows "for_loop [0..<length d] (\<lambda>i d.
                  case deref d i of
                    Inl e \<Rightarrow> Inl e
                  | Inr x \<Rightarrow> assign d i (fmul x c)) d = Inr (map (\<lambda>x. fmul x c) d)"
proof -
  have "for_loop [0..<length d] (\<lambda>i d.
                  case deref d i of
                    Inl e \<Rightarrow> Inl e
                  | Inr x \<Rightarrow> assign d i (fmul x c)) d
        = Inr (map (\<lambda>x. fmul x c) (take (length d) d) @ drop (length d) d)"
    by (rule for_loop_pointwise) (simp_all add: deref_def assign_def)
  then show ?thesis by simp
qed

lemma softmax_ok:
  assumes n: "total_size t \<noteq> 0" and len: "length (data t) = total_size t"
  shows "softmax fexp t = Inr (t\<lparr>data :=
           map (\<lambda>x. fmul (fexp (fsub x (max32 (data t))))
                       (fdiv (Fin 1) (sum32 (map (\<lambda>z. fexp (fsub z (max32 (data t)))) (data t)))))
             (data t)\<rparr>)"
proof -
  let ?d = "data t"
  let ?M = "max32 ?d"
  let ?f = "\<lambda>x. fexp (fsub x ?M)"
  have ne: "?d \<noteq> []" using n len by auto
  have 0: "deref ?d 0 = Inr (?d ! 0)" using ne by (simp add: deref_def)
  have 1: "for_loop [1..<total_size t] (\<lambda>i max_val.
               case deref ?d i of
                 Inl e \<Rightarrow> Inl e
               | Inr x \<Rightarrow> Inr (fmax max_val x)) (?d ! 0) = Inr ?M"
    using max_loop [OF ne] by (simp add: len)
  have 2: "for_loop [0..<total_size t] (\<lambda>i (d, acc).
               case deref d i of
                 Inl e \<Rightarrow> Inl e
               | Inr x \<Rightarrow>
                   (case assign d i (fexp (fsub x ?M)) of
                      Inl e \<Rightarrow> Inl e
                    | Inr d' \<Rightarrow> Inr (d', fadd acc (fexp (fsub x ?M))))) (?d, Fin 0)
        = Inr (map ?f ?d, sum32 (map ?f ?d))"
    using exp_sum_loop [of ?d ?f] by (simp add: len)
  have 3: "for_loop [0..<total_size t] (\<lambda>i d.
                  case deref d i of
                    Inl e \<Rightarrow> Inl e
                  | Inr x \<Rightarrow> assign d i (fmul x c)) (map ?f ?d) = Inr (map (\<lambda>x. fmul x c) (map ?f ?d))" for c
    using scale_loop [of "map ?f ?d" c] by (simp add: len)
  show ?thesis
    using n by (simp add: softmax_def 0 1 2 3 Let_def o_def del: One_nat_def)
qed

subsection \<open>Ranges\<close>

lemma fmax_Fin [simp]: "fmax (Fin a) (Fin b) = Fin (max a b)"
  by (simp add: fmax_def max_def)

lemma max32_finite:
  assumes "d \<noteq> []" "\<forall>x\<in>set d. finite32 x"
  shows "max32 d \<in> set d \<and> (\<forall>x\<in>set d. val x \<le> val (max32 d))"
proof -
  have "foldl fmax m xs \<in> insert m (set xs) \<and> val m \<le> val (foldl fmax m xs) \<and>
        (\<forall>x\<in>set xs. val x \<le> val (foldl fmax m xs))"
    if "finite32 m" "\<forall>x\<in>set xs. finite32 x" for m xs
    using that
  proof (induction xs arbitrary: m)
    case Nil
    show ?case by simp
  next
    case (Cons x xs)
    from Cons.prems obtain a b where m: "m = Fin a" "is_f32 a" and x: "x = Fin b" "is_f32 b"
      by (auto simp: finite32_iff)
    have fin: "finite32 (fmax m x)" using m x by (simp add: max_def)
    have v: "val (fmax m x) = max a b" using m x by simp
    have mem: "fmax m x = m \<or> fmax m x = x" using m x by (simp add: max_def)
    from Cons.IH [OF fin] Cons.prems(2)
    have IH: "foldl fmax (fmax m x) xs \<in> insert (fmax m x) (set xs)"
      "val (fmax m x) \<le> val (foldl fmax (fmax m x) xs)"
      "\<forall>y\<in>set xs. val y \<le> val (foldl fmax (fmax m x) xs)"
      by simp_all
    show ?case
      using IH mem v m x by auto
  qed
  from this [of "hd d" "tl d"] assms show ?thesis
    by (cases d) (auto simp: max32_def)
qed

lemma rnd_nonpos:
  assumes "x \<le> 0"
  shows "rnd x = NInf \<or> (\<exists>r. rnd x = Fin r \<and> r \<le> 0 \<and> is_f32 r)"
proof (cases "2 ^ 128 \<le> \<bar>round_real x\<bar>")
  case True
  then show ?thesis using assms by (simp add: rnd_def)
next
  case False
  then have r: "rnd x = Fin (round_real x)" by (simp add: rnd_def)
  have "round_real x \<le> round_real 0" using assms by (rule round_real_mono)
  then show ?thesis using r rnd_is_f32 [OF r] by simp
qed

text \<open>The exponential of an element minus the maximum is a binary32 value in \<open>[0, 1]\<close>.\<close>

lemma exp_shift_unit:
  assumes e: "exp_like fexp" and x: "x = Fin a" "is_f32 a" and m: "M = Fin b" "is_f32 b"
    and le: "a \<le> b"
  shows "\<exists>s. fexp (fsub x M) = Fin s \<and> is_f32 s \<and> 0 \<le> s \<and> s \<le> 1"
proof -
  have sub: "fsub x M = rnd (a - b)" by (simp add: fsub_def x m)
  from rnd_nonpos [of "a - b"] le
  consider "rnd (a - b) = NInf" | r where "rnd (a - b) = Fin r" "r \<le> 0" "is_f32 r"
    by auto
  then show ?thesis
  proof cases
    case 1
    then show ?thesis using e by (simp add: sub exp_like_def)
  next
    case 2
    then show ?thesis using e by (simp add: sub exp_like_def)
  qed
qed

lemma round_real_16777217: "round_real 16777217 = 16777216"
  using rnd_16777217 by (simp add: rnd_def Let_def split: if_splits)

text \<open>Adding a value of \<open>[0, 1]\<close> to a sum in \<open>[0, 2 ^ 24]\<close> keeps the sum in that interval and
  does not decrease it.\<close>

lemma fadd_unit:
  assumes a: "is_f32 a" "0 \<le> a" "a \<le> 2 ^ 24" and s: "0 \<le> s" "s \<le> 1"
  shows "\<exists>r. fadd (Fin a) (Fin s) = Fin r \<and> is_f32 r \<and> a \<le> r \<and> r \<le> 2 ^ 24 \<and> (s = 1 \<longrightarrow> 1 \<le> r)"
proof -
  have lo: "a \<le> round_real (a + s)"
    using round_real_mono [of a "a + s"] a(1) s(1) by (simp add: is_f32_iff)
  have "round_real (a + s) \<le> round_real 16777217"
    using a(3) s(2) by (intro round_real_mono) simp
  then have hi: "round_real (a + s) \<le> 2 ^ 24" by (simp add: round_real_16777217)
  have one: "1 \<le> round_real (a + s)" if "s = 1"
  proof -
    have "round_real 1 \<le> round_real (a + s)" using that a(2) by (intro round_real_mono) simp
    moreover have "round_real 1 = 1" using is_f32_1 by (simp add: is_f32_iff)
    ultimately show ?thesis by simp
  qed
  have "\<bar>round_real (a + s)\<bar> < 2 ^ 128" using lo hi a(2) by simp
  then have r: "rnd (a + s) = Fin (round_real (a + s))" by (simp add: rnd_def)
  show ?thesis
    using r rnd_is_f32 [OF r] lo hi one by simp
qed

lemma sum32_unit:
  assumes "\<forall>x\<in>set xs. \<exists>s. x = Fin s \<and> 0 \<le> s \<and> s \<le> 1"
    and "is_f32 a" "0 \<le> a" "a \<le> 2 ^ 24"
  shows "\<exists>r. foldl fadd (Fin a) xs = Fin r \<and> is_f32 r \<and> a \<le> r \<and> r \<le> 2 ^ 24 \<and>
             (Fin 1 \<in> set xs \<longrightarrow> 1 \<le> r)"
  using assms
proof (induction xs arbitrary: a)
  case Nil
  then show ?case by simp
next
  case (Cons x xs)
  from Cons.prems(1) obtain s where x: "x = Fin s" "0 \<le> s" "s \<le> 1" by auto
  from fadd_unit [OF Cons.prems(2-4) x(2,3)]
  obtain r where r: "fadd (Fin a) (Fin s) = Fin r" "is_f32 r" "a \<le> r" "r \<le> 2 ^ 24"
    "s = 1 \<longrightarrow> 1 \<le> r"
    by blast
  have r0: "0 \<le> r" using r(3) Cons.prems(3) by simp
  from Cons.IH [OF _ r(2) r0 r(4)] Cons.prems(1)
  obtain q where q: "foldl fadd (Fin r) xs = Fin q" "is_f32 q" "r \<le> q" "q \<le> 2 ^ 24"
    "Fin 1 \<in> set xs \<longrightarrow> 1 \<le> q"
    by auto
  show ?case
    using q r x by (intro exI [of _ q]) auto
qed

lemma softmax_range:
  assumes n: "total_size t \<noteq> 0" and len: "length (data t) = total_size t"
    and fin: "all_finite t" and e: "exp_like fexp"
  shows "\<exists>u. softmax fexp t = Inr u \<and> shape u = shape t \<and> total_size u = total_size t \<and>
             dtype u = dtype t \<and> length (data u) = length (data t) \<and>
             (\<forall>y\<in>set (data u). finite32 y \<and> 0 \<le> val y \<and> val y \<le> 1)"
proof -
  let ?d = "data t"
  let ?M = "max32 ?d"
  let ?f = "\<lambda>x. fexp (fsub x ?M)"
  let ?S = "sum32 (map ?f ?d)"
  have ne: "?d \<noteq> []" using n len by auto
  have allfin: "\<forall>x\<in>set ?d. finite32 x" using fin by (simp add: all_finite_def)
  from max32_finite [OF ne allfin]
  have Mmem: "?M \<in> set ?d" and Mmax: "\<forall>x\<in>set ?d. val x \<le> val ?M" by simp_all
  from Mmem allfin obtain b where M: "?M = Fin b" "is_f32 b" by (auto simp: finite32_iff)
  have unit: "\<exists>s. ?f x = Fin s \<and> is_f32 s \<and> 0 \<le> s \<and> s \<le> 1" if "x \<in> set ?d" for x
  proof -
    from that allfin obtain a where x: "x = Fin a" "is_f32 a" by (auto simp: finite32_iff)
    have "val x \<le> val ?M" using Mmax that by blast
    then have "a \<le> b" by (simp add: x M)
    then show ?thesis by (rule exp_shift_unit [OF e x M])
  qed
  have e0: "fexp (Fin 0) = Fin 1" using e by (simp add: exp_like_def)
  have "fsub ?M ?M = Fin 0" by (simp add: fsub_def M)
  then have fM: "?f ?M = Fin 1" by (simp only: e0)
  have "?f ?M \<in> ?f ` set ?d" using Mmem by (rule imageI)
  then have one: "Fin 1 \<in> set (map ?f ?d)" by (simp only: fM set_map)
  have "\<forall>x\<in>set (map ?f ?d). \<exists>s. x = Fin s \<and> 0 \<le> s \<and> s \<le> 1"
    using unit by auto
  from sum32_unit [OF this is_f32_0, of ] one
  obtain \<sigma> where S: "?S = Fin \<sigma>" "is_f32 \<sigma>" "1 \<le> \<sigma>" "\<sigma> \<le> 2 ^ 24"
    by (auto simp: sum32_def)
  have "0 \<le> 1 / \<sigma>" "1 / \<sigma> \<le> 1" using S(3) by simp_all
  from rnd_bounds [OF this is_f32_0 is_f32_1]
  obtain \<iota> where inv: "fdiv (Fin 1) ?S = Fin \<iota>" "0 \<le> \<iota>" "\<iota> \<le> 1"
    using S by auto
  have out: "finite32 (fmul (?f x) (Fin \<iota>)) \<and> 0 \<le> val (fmul (?f x) (Fin \<iota>)) \<and>
      val (fmul (?f x) (Fin \<iota>)) \<le> 1" if "x \<in> set ?d" for x
  proof -
    from unit [OF that] obtain s where s: "?f x = Fin s" "0 \<le> s" "s \<le> 1" by blast
    have "0 \<le> s * \<iota>" using s inv by simp
    moreover have "s * \<iota> \<le> 1" using s inv by (simp add: mult_le_one)
    ultimately obtain r where "rnd (s * \<iota>) = Fin r" "0 \<le> r" "r \<le> 1" "is_f32 r"
      using rnd_bounds [OF _ _ is_f32_0 is_f32_1] by blast
    then show ?thesis by (simp add: s)
  qed
  show ?thesis
    using softmax_ok [OF n len, of fexp] out by (simp add: inv)
qed

subsection \<open>Equal inputs\<close>

lemma max32_replicate: "0 < n \<Longrightarrow> max32 (replicate n c) = c"
proof -
  have "foldl fmax c (replicate k c) = c" for k
    by (induction k) (simp_all add: fmax_def)
  moreover assume "0 < n"
  ultimately show ?thesis by (cases n) (simp_all add: max32_def)
qed

text \<open>The binary32 sum of \<open>k\<close> ones stops growing at \<open>2 ^ 24\<close>.\<close>

lemma sum_ones:
  "a \<le> 16777216 \<Longrightarrow>
   foldl fadd (Fin (real a)) (replicate k (Fin 1)) = Fin (real (min (a + k) 16777216))"
proof (induction k arbitrary: a)
  case 0
  then show ?case by simp
next
  case (Suc k)
  show ?case
  proof (cases "a = 16777216")
    case True
    have "fadd (Fin (real a)) (Fin 1) = Fin (real a)"
      using rnd_16777217 by (simp add: True)
    then show ?thesis using Suc.IH [of a] True by simp
  next
    case False
    with Suc.prems have lt: "Suc a \<le> 16777216" by simp
    have "fadd (Fin (real a)) (Fin 1) = rnd (real (Suc a))" by (simp add: add.commute)
    also have "\<dots> = Fin (real (Suc a))" using lt by (intro rnd_of_nat) simp
    finally show ?thesis using Suc.IH [OF lt] by simp
  qed
qed

lemma sum32_ones: "sum32 (replicate n (Fin 1)) = Fin (real (min n 16777216))"
  using sum_ones [of 0 n] by (simp add: sum32_def)

lemma softmax_uniform:
  assumes n: "total_size t \<noteq> 0" and len: "length (data t) = total_size t"
    and c: "finite32 c" and d: "data t = replicate (total_size t) c"
    and e0: "fexp (Fin 0) = Fin 1"
  shows "softmax fexp t =
           Inr (t\<lparr>data := replicate (total_size t) (rnd (1 / real (min (total_size t) 16777216)))\<rparr>)"
proof -
  let ?n = "total_size t"
  from c obtain a where a: "c = Fin a" "is_f32 a" by (auto simp: finite32_iff)
  have M: "max32 (data t) = c" using n by (subst d) (simp add: max32_replicate)
  have f: "fexp (fsub c c) = Fin 1" by (simp add: fsub_def a e0)
  have S: "sum32 (map (\<lambda>z. fexp (fsub z c)) (replicate ?n c)) = Fin (real (min ?n 16777216))"
    by (simp add: f sum32_ones)
  have pos: "0 < real (min ?n 16777216)" using n by simp
  then have "0 \<le> 1 / real (min ?n 16777216)" by simp
  moreover have "1 / real (min ?n 16777216) \<le> 1" using n by (simp add: min_def)
  ultimately obtain \<iota> where i: "rnd (1 / real (min ?n 16777216)) = Fin \<iota>" "is_f32 \<iota>"
    using rnd_bounds [OF _ _ is_f32_0 is_f32_1] by blast
  have inv: "fdiv (Fin 1) (Fin (real (min ?n 16777216))) = Fin \<iota>"
    using pos i by simp
  have out: "fmul (Fin 1) (Fin \<iota>) = Fin \<iota>" using i(2) by (simp add: is_f32_def)
  have "softmax fexp t = Inr (t\<lparr>data :=
           map (\<lambda>x. fmul (fexp (fsub x c)) (fdiv (Fin 1) (sum32 (map (\<lambda>z. fexp (fsub z c)) (data t)))))
             (data t)\<rparr>)"
    using softmax_ok [OF n len, of fexp] by (simp only: M)
  also have "sum32 (map (\<lambda>z. fexp (fsub z c)) (data t)) = Fin (real (min ?n 16777216))"
    by (subst d) (rule S)
  also have "map (\<lambda>x. fmul (fexp (fsub x c)) (fdiv (Fin 1) (Fin (real (min ?n 16777216))))) (data t) =
      replicate ?n (Fin \<iota>)"
    by (subst d) (simp only: map_replicate f inv out)
  finally show ?thesis by (simp only: i)
qed

lemma rnd_reciprocal:
  assumes "0 < n" "n \<le> 16777216"
  shows "\<exists>r. rnd (1 / real n) = Fin r \<and> is_f32 r \<and> \<bar>real n * r - 1\<bar> \<le> 1 / 2 ^ 24"
proof -
  define x where "x = 1 / real n"
  have x0: "0 < x" and x1: "x \<le> 1" using assms by (simp_all add: x_def)
  have xlo: "2 powi (-24) \<le> x"
  proof -
    have "real n \<le> 2 ^ 24" using assms(2) by simp
    then have "1 / 2 ^ 24 \<le> 1 / real n" using assms(1) by (intro divide_left_mono) simp_all
    then show ?thesis by (simp add: x_def power_int_minus divide_simps)
  qed
  have "binade (2 powi (-24)) \<le> binade x"
    using xlo x0 by (intro binade_mono) simp
  then have k: "-126 < binade x" using binade_powi [of "-24"] by simp
  have "2 powi (binade x) \<le> \<bar>x\<bar>" using k by (rule binade_lower)
  then have "quantum x * 2 ^ 23 \<le> x" using x0 by (simp only: quantum_23)
  then have q: "quantum x / 2 \<le> x / 2 ^ 24" by simp
  obtain r where r: "rnd x = Fin r" "is_f32 r"
    using rnd_bounds [OF _ x1 is_f32_0 is_f32_1] x0 by force
  then have rr: "r = round_real x" by (auto simp: rnd_def Let_def split: if_splits)
  have "\<bar>r - x\<bar> \<le> x / 2 ^ 24"
    using round_real_error [of x] q by (simp add: rr)
  then have "real n * \<bar>r - x\<bar> \<le> real n * (x / 2 ^ 24)"
    by (intro mult_left_mono) simp_all
  moreover have "real n * \<bar>r - x\<bar> = \<bar>real n * r - 1\<bar>"
  proof -
    have "real n * \<bar>r - x\<bar> = \<bar>real n * (r - x)\<bar>" by (simp add: abs_mult)
    also have "real n * (r - x) = real n * r - 1" using assms(1) by (simp add: x_def algebra_simps)
    finally show ?thesis .
  qed
  moreover have "real n * (x / 2 ^ 24) = 1 / 2 ^ 24" using assms(1) by (simp add: x_def)
  ultimately have "\<bar>real n * r - 1\<bar> \<le> 1 / 2 ^ 24" by simp
  then show ?thesis using r by (auto simp: x_def)
qed

lemma exp_like_exp32: "exp_like exp32"
  unfolding exp_like_def
proof (intro conjI allI impI)
  fix r :: real
  assume "r \<le> 0 \<and> is_f32 r"
  then have "0 \<le> exp r" "exp r \<le> 1" by simp_all
  from rnd_bounds [OF this is_f32_0 is_f32_1]
  show "\<exists>s. exp32 (Fin r) = Fin s \<and> is_f32 s \<and> 0 \<le> s \<and> s \<le> 1" by auto
qed simp_all

subsection \<open>The sum of the outputs\<close>

text \<open>The error of one rounding is at most \<open>2 ^ -24\<close> of the magnitude, or \<open>2 ^ -150\<close> in the
  subnormal range.\<close>

lemma round_real_rel: "\<bar>round_real x - x\<bar> \<le> \<bar>x\<bar> / 2 ^ 24 + 1 / 2 ^ 150"
proof (cases "-126 < binade x")
  case True
  then have "2 powi (binade x) \<le> \<bar>x\<bar>" by (rule binade_lower)
  then have "quantum x * 2 ^ 23 \<le> \<bar>x\<bar>" by (simp only: quantum_23)
  then have "quantum x / 2 \<le> \<bar>x\<bar> / 2 ^ 24" by simp
  with round_real_error [of x] show ?thesis by simp
next
  case False
  with binade_range [of x] have "binade x = -126" by simp
  then have "quantum x = 2 powi (-149)" by (simp add: quantum_def)
  then have "quantum x / 2 = 1 / 2 ^ 150" by (simp add: power_int_minus divide_simps)
  with round_real_error [of x] have "\<bar>round_real x - x\<bar> \<le> 1 / 2 ^ 150" by simp
  moreover have "0 \<le> \<bar>x\<bar> / 2 ^ 24" by simp
  ultimately show ?thesis by linarith
qed

lemma sum_list_unit:
  fixes es :: "real list"
  assumes "\<forall>s\<in>set es. 0 \<le> s \<and> s \<le> 1"
  shows "0 \<le> sum_list es \<and> sum_list es \<le> real (length es)"
  using assms by (induction es) auto

text \<open>The binary32 sum of at most 1024 values of \<open>[0, 1]\<close> has a relative error of at most
  \<open>2 ^ -24\<close> per term, up to a factor \<open>1 + 2 ^ -13\<close>.\<close>

lemma sum32_error:
  assumes "\<forall>s\<in>set es. 0 \<le> s \<and> s \<le> 1" "length es \<le> 1024"
  shows "\<exists>\<sigma>. foldl fadd (Fin 0) (map Fin es) = Fin \<sigma> \<and> is_f32 \<sigma> \<and> 0 \<le> \<sigma> \<and> \<sigma> \<le> 2 ^ 24 \<and>
           \<bar>\<sigma> - sum_list es\<bar> \<le>
             real (length es) * (8193 / 8192) * (sum_list es / 2 ^ 24 + 1 / 2 ^ 150)"
  using assms
proof (induction es rule: rev_induct)
  case Nil
  show ?case using is_f32_0 by simp
next
  case (snoc s es)
  from snoc.prems have s: "0 \<le> s" "s \<le> 1" and es: "\<forall>s\<in>set es. 0 \<le> s \<and> s \<le> 1"
    and len: "length es \<le> 1023"
    by simp_all
  define k where "k = real (length es)"
  define T' where "T' = sum_list es"
  define X' where "X' = T' / 2 ^ 24 + 1 / 2 ^ 150"
  define X where "X = (T' + s) / 2 ^ 24 + 1 / 2 ^ 150"
  have k: "0 \<le> k" "k \<le> 1023" using len by (simp_all add: k_def)
  have T'0: "0 \<le> T'" using sum_list_unit [OF es] by (simp add: T'_def)
  have X'0: "0 \<le> X'" using T'0 by (simp add: X'_def)
  have XX: "X' \<le> X" using s by (simp add: X'_def X_def divide_right_mono)
  have X0: "0 \<le> X" using X'0 XX by simp
  from snoc.IH [OF es] len
  obtain \<sigma>' where \<sigma>': "foldl fadd (Fin 0) (map Fin es) = Fin \<sigma>'" "is_f32 \<sigma>'" "0 \<le> \<sigma>'"
    "\<sigma>' \<le> 2 ^ 24" and IH: "\<bar>\<sigma>' - T'\<bar> \<le> k * (8193 / 8192) * X'"
    by (auto simp: k_def T'_def X'_def)
  from fadd_unit [OF \<sigma>'(2-4) s]
  obtain r where r: "fadd (Fin \<sigma>') (Fin s) = Fin r" "is_f32 r" "\<sigma>' \<le> r" "r \<le> 2 ^ 24"
    by blast
  have rr: "r = round_real (\<sigma>' + s)"
    using r(1) by (auto simp: rnd_def Let_def split: if_splits)
  have "\<bar>r - (\<sigma>' + s)\<bar> \<le> \<bar>\<sigma>' + s\<bar> / 2 ^ 24 + 1 / 2 ^ 150"
    unfolding rr by (rule round_real_rel)
  then have e1: "\<bar>r - (\<sigma>' + s)\<bar> \<le> (\<sigma>' + s) / 2 ^ 24 + 1 / 2 ^ 150"
    using \<sigma>'(3) s(1) by simp
  define E where "E = \<bar>\<sigma>' - T'\<bar>"
  have E0: "0 \<le> E" by (simp add: E_def)
  have "0 \<le> k * (8193 / 8192)" using k(1) by simp
  then have "k * (8193 / 8192) * X' \<le> k * (8193 / 8192) * X"
    using XX by (rule mult_left_mono [rotated])
  then have E: "E \<le> k * (8193 / 8192) * X" using IH unfolding E_def by linarith
  have "\<sigma>' \<le> T' + E" unfolding E_def by linarith
  then have "(\<sigma>' + s) / 2 ^ 24 \<le> (T' + s + E) / 2 ^ 24"
    by (intro divide_right_mono) simp_all
  also have "\<dots> = (T' + s) / 2 ^ 24 + E / 2 ^ 24" by (rule add_divide_distrib)
  finally have "\<bar>r - (\<sigma>' + s)\<bar> \<le> X + E / 2 ^ 24" using e1 unfolding X_def by linarith
  moreover have "\<bar>r - (T' + s)\<bar> \<le> \<bar>r - (\<sigma>' + s)\<bar> + E"
    unfolding E_def by linarith
  moreover have "E / 2 ^ 24 + E = E * (16777217 / 16777216)" by simp
  ultimately have 1: "\<bar>r - (T' + s)\<bar> \<le> X + E * (16777217 / 16777216)" by linarith
  have "E * (16777217 / 16777216) \<le> k * (8193 / 8192) * X * (16777217 / 16777216)"
    using E by (intro mult_right_mono) simp_all
  also have "\<dots> = X * (k * (8193 / 8192) * (16777217 / 16777216))" by simp
  finally have 2: "\<bar>r - (T' + s)\<bar> \<le> X * (1 + k * (8193 / 8192) * (16777217 / 16777216))"
    using 1 by (simp add: algebra_simps)
  have "1 + k * (8193 / 8192) * (16777217 / 16777216) \<le> (k + 1) * (8193 / 8192)"
    using k by simp
  then have "X * (1 + k * (8193 / 8192) * (16777217 / 16777216)) \<le> X * ((k + 1) * (8193 / 8192))"
    using X0 by (intro mult_left_mono)
  with 2 have 3: "\<bar>r - (T' + s)\<bar> \<le> (k + 1) * (8193 / 8192) * X"
    by (simp add: mult.commute)
  have r0: "0 \<le> r" using r(3) \<sigma>'(3) by simp
  have fold: "foldl fadd (Fin 0) (map Fin (es @ [s])) = Fin r"
    using r(1) by (simp add: \<sigma>'(1))
  have len': "real (length (es @ [s])) = k + 1" by (simp add: k_def)
  have sum': "sum_list (es @ [s]) = T' + s" by (simp add: T'_def)
  show ?case
    unfolding fold len' sum' using r(2) r0 r(4) 3 by (simp add: X_def)
qed

text \<open>The sum of the rounded products with a common factor.\<close>

lemma scaled_sum_error:
  assumes "\<forall>e\<in>set es. 0 \<le> e" "0 \<le> \<iota>"
  shows "\<bar>sum_list (map (\<lambda>e. round_real (e * \<iota>)) es) - \<iota> * sum_list es\<bar> \<le>
           \<iota> * sum_list es / 2 ^ 24 + real (length es) / 2 ^ 150"
  using assms(1)
proof (induction es)
  case Nil
  show ?case by simp
next
  case (Cons e es)
  define Y where "Y = sum_list (map (\<lambda>e. round_real (e * \<iota>)) es)"
  define P where "P = \<iota> * sum_list es"
  define p where "p = e * \<iota>"
  from Cons.prems have e: "0 \<le> e" by simp
  have p0: "0 \<le> p" using e assms(2) by (simp add: p_def)
  from Cons have IH: "\<bar>Y - P\<bar> \<le> P / 2 ^ 24 + real (length es) / 2 ^ 150"
    by (simp add: Y_def P_def)
  have "\<bar>round_real p - p\<bar> \<le> \<bar>p\<bar> / 2 ^ 24 + 1 / 2 ^ 150" by (rule round_real_rel)
  then have 1: "\<bar>round_real p - p\<bar> \<le> p / 2 ^ 24 + 1 / 2 ^ 150" using p0 by simp
  have "\<bar>(round_real p + Y) - (p + P)\<bar> \<le> \<bar>round_real p - p\<bar> + \<bar>Y - P\<bar>" by simp
  with 1 IH have "\<bar>(round_real p + Y) - (p + P)\<bar> \<le>
      (p + P) / 2 ^ 24 + (real (length es) + 1) / 2 ^ 150"
    by (simp add: add_divide_distrib)
  moreover have "sum_list (map (\<lambda>e. round_real (e * \<iota>)) (e # es)) = round_real p + Y"
    by (simp add: Y_def p_def)
  moreover have "\<iota> * sum_list (e # es) = p + P"
    by (simp add: P_def p_def algebra_simps)
  moreover have "real (length (e # es)) = real (length es) + 1" by simp
  ultimately show ?case by (simp only:)
qed

lemma softmax_sum_arith:
  fixes n T S \<iota> Y :: real
  assumes n: "1 \<le> n" "n \<le> 1024"
    and T: "0 \<le> T" "T \<le> n"
    and S: "1 \<le> S"
    and err: "\<bar>S - T\<bar> \<le> n * (8193 / 8192) * (T / 2 ^ 24 + 1 / 2 ^ 150)"
    and inv: "0 \<le> \<iota>" "\<bar>\<iota> - 1 / S\<bar> \<le> (1 / S) / 2 ^ 24 + 1 / 2 ^ 150"
    and out: "\<bar>Y - \<iota> * T\<bar> \<le> \<iota> * T / 2 ^ 24 + n / 2 ^ 150"
  shows "\<bar>Y - 1\<bar> \<le> (n + 3) / 2 ^ 24"
proof -
  define \<eta> :: real where "\<eta> = 1 / 2 ^ 150"
  define r where "r = T / S"
  define q where "q = 1 / S"
  have \<eta>: "0 < \<eta>" "\<eta> \<le> 1 / 1267650600228229401496703205376" by (simp_all add: \<eta>_def)
  have S0: "0 < S" using S by simp
  have q: "0 < q" "q \<le> 1" using S by (simp_all add: q_def)
  have r0: "0 \<le> r" using T S0 by (simp add: r_def)
  have rq: "r = q * T" by (simp add: r_def q_def)
  \<comment> \<open>the sum is close to the exact sum\<close>
  have "n * (8193 / 8192) * (T / 2 ^ 24 + \<eta>) = (n * (8193 / 8192) / 2 ^ 24) * T + n * (8193 / 8192) * \<eta>"
    by (simp add: algebra_simps)
  moreover have "(n * (8193 / 8192) / 2 ^ 24) * T \<le> (1 / 8192) * T"
    using n T(1) by (intro mult_right_mono) simp_all
  moreover have "n * (8193 / 8192) * \<eta> \<le> 1025 * \<eta>"
    using n \<eta>(1) by (intro mult_right_mono) simp_all
  ultimately have "\<bar>S - T\<bar> \<le> T / 8192 + 1025 * \<eta>"
    using err by (simp add: \<eta>_def)
  then have "T \<le> (4097 / 4096) * S" using S \<eta>(2) by linarith
  then have "T / S \<le> (4097 / 4096) * S / S" using S0 by (intro divide_right_mono) simp_all
  then have r1: "r \<le> 4097 / 4096" using S0 by (simp add: r_def)
  \<comment> \<open>the three errors\<close>
  have errq: "\<bar>S - T\<bar> * q \<le> n * (8193 / 8192) * (T / 2 ^ 24 + \<eta>) * q"
    using err q(1) by (intro mult_right_mono) (simp_all add: \<eta>_def)
  have "n * (8193 / 8192) * (T / 2 ^ 24 + \<eta>) * q = n * (8193 / 8192) * (r / 2 ^ 24 + \<eta> * q)"
    by (simp add: rq algebra_simps)
  also have "\<dots> \<le> n * (8193 / 8192) * (r / 2 ^ 24 + \<eta>)"
  proof -
    have "\<eta> * q \<le> \<eta> * 1" using q(2) \<eta>(1) by (intro mult_left_mono) simp_all
    then have "r / 2 ^ 24 + \<eta> * q \<le> r / 2 ^ 24 + \<eta>" by simp
    then show ?thesis using n(1) by (intro mult_left_mono) simp_all
  qed
  also have "\<dots> \<le> n * (8193 / 8192) * ((4097 / 4096) / 2 ^ 24 + \<eta>)"
    using r1 n(1) by (intro mult_left_mono) (simp_all add: divide_right_mono)
  finally have "n * (8193 / 8192) * (T / 2 ^ 24 + \<eta>) * q \<le>
      n * (8193 / 8192) * ((4097 / 4096) / 2 ^ 24 + \<eta>)" .
  with errq have C: "\<bar>S - T\<bar> * q \<le> n * (8193 / 8192) * ((4097 / 4096) / 2 ^ 24 + \<eta>)"
    by (rule order_trans)
  have "\<bar>\<iota> - q\<bar> * T \<le> (q / 2 ^ 24 + \<eta>) * T"
    using inv(2) T(1) by (intro mult_right_mono) (simp_all add: q_def \<eta>_def)
  also have "\<dots> = r / 2 ^ 24 + \<eta> * T" by (simp add: rq algebra_simps)
  finally have B: "\<bar>\<iota> - q\<bar> * T \<le> r / 2 ^ 24 + \<eta> * T" .
  have "\<iota> * T - q * T \<le> \<bar>\<iota> - q\<bar> * T"
  proof -
    have "(\<iota> - q) * T \<le> \<bar>\<iota> - q\<bar> * T" using T(1) by (intro mult_right_mono) simp_all
    then show ?thesis by (simp add: algebra_simps)
  qed
  with B rq have P: "\<iota> * T \<le> r + r / 2 ^ 24 + \<eta> * T" by linarith
  have ident: "\<iota> * T - 1 = (\<iota> - q) * T + (T - S) * q"
    using S0 by (simp add: q_def field_simps)
  have "\<bar>\<iota> * T - 1\<bar> \<le> \<bar>(\<iota> - q) * T\<bar> + \<bar>(T - S) * q\<bar>"
    unfolding ident by (rule abs_triangle_ineq)
  also have "\<bar>(\<iota> - q) * T\<bar> = \<bar>\<iota> - q\<bar> * T" using T(1) by (simp add: abs_mult)
  also have "\<bar>(T - S) * q\<bar> = \<bar>S - T\<bar> * q" using q(1) by (simp add: abs_mult abs_minus_commute)
  finally have D: "\<bar>\<iota> * T - 1\<bar> \<le> \<bar>\<iota> - q\<bar> * T + \<bar>S - T\<bar> * q" .
  have "\<bar>Y - 1\<bar> \<le> \<bar>Y - \<iota> * T\<bar> + \<bar>\<iota> * T - 1\<bar>" by simp
  with out D have "\<bar>Y - 1\<bar> \<le> \<iota> * T / 2 ^ 24 + n * \<eta> + \<bar>\<iota> - q\<bar> * T + \<bar>S - T\<bar> * q"
    by (simp add: \<eta>_def)
  moreover have \<eta>T: "\<eta> * T \<le> \<eta> * n" using T(2) \<eta>(1) by (intro mult_left_mono) simp_all
  moreover have "\<iota> * T / 2 ^ 24 \<le> (r + r / 2 ^ 24 + \<eta> * n) / 2 ^ 24"
    using P \<eta>T by (intro divide_right_mono) simp_all
  ultimately have big: "\<bar>Y - 1\<bar> \<le> (r + r / 2 ^ 24 + \<eta> * n) / 2 ^ 24 + n * \<eta> + (r / 2 ^ 24 + \<eta> * n)
      + n * (8193 / 8192) * ((4097 / 4096) / 2 ^ 24 + \<eta>)"
    using B C by linarith
  define m where "m = \<eta> * n"
  have "\<eta> * n \<le> \<eta> * 1024" using n(2) \<eta>(1) by (intro mult_left_mono) simp_all
  then have m: "0 \<le> m" "m \<le> 1 / 1099511627776"
    using n(1) \<eta>(1) by (simp_all add: m_def \<eta>_def)
  have e2: "n * (8193 / 8192) * ((4097 / 4096) / 2 ^ 24 + \<eta>) =
      n * (33566721 / 562949953421312) + (8193 / 8192) * m"
    by (simp add: m_def algebra_simps)
  have e3: "n * \<eta> = m" by (simp add: m_def)
  define Z where "Z = \<bar>Y - 1\<bar>"
  have "Z \<le> (r + r / 16777216 + m) / 16777216 + m + (r / 16777216 + m)
      + (n * (33566721 / 562949953421312) + (8193 / 8192) * m)"
    using big unfolding e2 e3 m_def [symmetric] Z_def by simp
  moreover have "(r + r / 16777216 + m) / 16777216 =
      r * (16777217 / 281474976710656) + m * (1 / 16777216)"
    by (simp add: field_simps)
  ultimately have "Z \<le> n * (1 / 16777216) + 3 * (1 / 16777216)"
    using r1 n(2) m(2) by linarith
  then show ?thesis by (simp add: Z_def add_divide_distrib)
qed

text \<open>For at most 1024 finite elements the outputs sum to 1 within \<open>(n + 3) / 2 ^ 24\<close>.\<close>

lemma softmax_sum:
  assumes n: "total_size t \<noteq> 0" and len: "length (data t) = total_size t"
    and fin: "all_finite t" and e: "exp_like fexp" and small: "total_size t \<le> 1024"
  shows "\<exists>u. softmax fexp t = Inr u \<and>
             \<bar>sum_list (map val (data u)) - 1\<bar> \<le> (real (total_size t) + 3) / 2 ^ 24"
proof -
  let ?d = "data t"
  let ?M = "max32 ?d"
  let ?f = "\<lambda>x. fexp (fsub x ?M)"
  let ?S = "sum32 (map ?f ?d)"
  have ne: "?d \<noteq> []" using n len by auto
  have allfin: "\<forall>x\<in>set ?d. finite32 x" using fin by (simp add: all_finite_def)
  from max32_finite [OF ne allfin]
  have Mmem: "?M \<in> set ?d" and Mmax: "\<forall>x\<in>set ?d. val x \<le> val ?M" by simp_all
  from Mmem allfin obtain b where M: "?M = Fin b" "is_f32 b" by (auto simp: finite32_iff)
  have unit: "\<exists>s. ?f x = Fin s \<and> is_f32 s \<and> 0 \<le> s \<and> s \<le> 1" if "x \<in> set ?d" for x
  proof -
    from that allfin obtain a where x: "x = Fin a" "is_f32 a" by (auto simp: finite32_iff)
    have "val x \<le> val ?M" using Mmax that by blast
    then have "a \<le> b" by (simp add: x M)
    then show ?thesis by (rule exp_shift_unit [OF e x M])
  qed
  have e0: "fexp (Fin 0) = Fin 1" using e by (simp add: exp_like_def)
  have "fsub ?M ?M = Fin 0" by (simp add: fsub_def M)
  then have fM: "?f ?M = Fin 1" by (simp only: e0)
  have "?f ?M \<in> ?f ` set ?d" using Mmem by (rule imageI)
  then have one: "Fin 1 \<in> set (map ?f ?d)" by (simp only: fM set_map)
  define es where "es = map (\<lambda>x. val (?f x)) ?d"
  have mapf: "map ?f ?d = map Fin es"
  proof -
    have "?f x = Fin (val (?f x))" if "x \<in> set ?d" for x
      using unit [OF that] by auto
    then show ?thesis by (simp add: es_def)
  qed
  have es: "\<forall>s\<in>set es. 0 \<le> s \<and> s \<le> 1"
  proof
    fix s assume "s \<in> set es"
    then obtain x where "x \<in> set ?d" "s = val (?f x)" by (auto simp: es_def)
    then show "0 \<le> s \<and> s \<le> 1" using unit [of x] by auto
  qed
  have les: "length es = total_size t" by (simp add: es_def len)
  have les': "length es \<le> 1024" using small by (simp add: les)
  from sum32_error [OF es les']
  obtain \<sigma> where \<sigma>: "foldl fadd (Fin 0) (map Fin es) = Fin \<sigma>"
    and err: "\<bar>\<sigma> - sum_list es\<bar> \<le>
      real (length es) * (8193 / 8192) * (sum_list es / 2 ^ 24 + 1 / 2 ^ 150)"
    by blast
  have S: "?S = Fin \<sigma>" by (simp only: sum32_def mapf \<sigma>)
  have "\<forall>x\<in>set (map ?f ?d). \<exists>s. x = Fin s \<and> 0 \<le> s \<and> s \<le> 1"
    using unit by auto
  from sum32_unit [OF this is_f32_0] one
  obtain \<sigma>2 where "?S = Fin \<sigma>2" "1 \<le> \<sigma>2"
    by (auto simp: sum32_def)
  then have \<sigma>1: "1 \<le> \<sigma>" using S by simp
  have "0 \<le> 1 / \<sigma>" "1 / \<sigma> \<le> 1" using \<sigma>1 by simp_all
  from rnd_bounds [OF this is_f32_0 is_f32_1]
  obtain \<iota> where inv: "rnd (1 / \<sigma>) = Fin \<iota>" "0 \<le> \<iota>" "\<iota> \<le> 1"
    by auto
  have ir: "\<iota> = round_real (1 / \<sigma>)"
    using inv(1) by (auto simp: rnd_def Let_def split: if_splits)
  have "\<bar>\<iota> - 1 / \<sigma>\<bar> \<le> \<bar>1 / \<sigma>\<bar> / 2 ^ 24 + 1 / 2 ^ 150"
    unfolding ir by (rule round_real_rel)
  moreover have "\<bar>1 / \<sigma>\<bar> = 1 / \<sigma>" using \<sigma>1 by simp
  ultimately have ierr: "\<bar>\<iota> - 1 / \<sigma>\<bar> \<le> (1 / \<sigma>) / 2 ^ 24 + 1 / 2 ^ 150"
    by (simp only:)
  have fd: "fdiv (Fin 1) ?S = Fin \<iota>" using S \<sigma>1 inv(1) by simp
  have out: "fmul (Fin s) (Fin \<iota>) = Fin (round_real (s * \<iota>))" if "s \<in> set es" for s
  proof -
    from es that have s: "0 \<le> s" "s \<le> 1" by auto
    have "0 \<le> s * \<iota>" using s inv by simp
    moreover have "s * \<iota> \<le> 1" using s inv by (simp add: mult_le_one)
    ultimately obtain r where r: "rnd (s * \<iota>) = Fin r"
      using rnd_bounds [OF _ _ is_f32_0 is_f32_1] by blast
    then have "r = round_real (s * \<iota>)" by (auto simp: rnd_def Let_def split: if_splits)
    with r show ?thesis by simp
  qed
  have "map (\<lambda>x. fmul (?f x) (fdiv (Fin 1) ?S)) ?d = map (\<lambda>y. fmul y (Fin \<iota>)) (map ?f ?d)"
    by (simp only: fd map_map o_def)
  also have "\<dots> = map (\<lambda>s. fmul (Fin s) (Fin \<iota>)) es"
    by (simp only: mapf map_map o_def)
  also have "\<dots> = map (\<lambda>s. Fin (round_real (s * \<iota>))) es"
    using out by (intro map_cong refl)
  finally have data: "map (\<lambda>x. fmul (?f x) (fdiv (Fin 1) ?S)) ?d =
      map (\<lambda>s. Fin (round_real (s * \<iota>))) es" .
  have ok: "softmax fexp t = Inr (t\<lparr>data := map (\<lambda>s. Fin (round_real (s * \<iota>))) es\<rparr>)"
    using softmax_ok [OF n len, of fexp] by (simp only: data)
  define Y where "Y = sum_list (map (\<lambda>s. round_real (s * \<iota>)) es)"
  have vals: "sum_list (map val (map (\<lambda>s. Fin (round_real (s * \<iota>))) es)) = Y"
    by (simp add: Y_def o_def)
  have es0: "\<forall>e\<in>set es. 0 \<le> e" using es by simp
  have oerr: "\<bar>Y - \<iota> * sum_list es\<bar> \<le> \<iota> * sum_list es / 2 ^ 24 + real (length es) / 2 ^ 150"
    unfolding Y_def using es0 inv(2) by (rule scaled_sum_error)
  have T: "0 \<le> sum_list es" "sum_list es \<le> real (length es)"
    using sum_list_unit [OF es] by simp_all
  have nn: "1 \<le> real (length es)" "real (length es) \<le> 1024"
    using n small by (simp_all add: les)
  have "\<bar>Y - 1\<bar> \<le> (real (length es) + 3) / 2 ^ 24"
    by (rule softmax_sum_arith [OF nn T \<sigma>1 err inv(2) ierr oerr])
  then have "\<bar>sum_list (map val (map (\<lambda>s. Fin (round_real (s * \<iota>))) es)) - 1\<bar> \<le>
      (real (total_size t) + 3) / 2 ^ 24"
    by (simp only: vals les)
  then show ?thesis
    unfolding ok by (intro exI [of _ "t\<lparr>data := map (\<lambda>s. Fin (round_real (s * \<iota>))) es\<rparr>"]) simp
qed

text \<open>
  Claim C8, as stated, fails on a large tensor: the binary32 sum of the exponentials stops
  growing at \<open>2 ^ 24\<close>. On \<open>2 ^ 25\<close> equal elements (here \<^verbatim>\<open>0.0f\<close>, with an exponential
  function that is correctly rounded) every exponential is 1, the sum is \<open>2 ^ 24\<close>, and
  every output is \<open>1 / 2 ^ 24\<close>: the outputs sum to 2, not to 1 within \<open>1e-6\<close>, and are not
  the uniform value \<open>1 / 2 ^ 25\<close>.
\<close>

theorem softmax_counterexample:
  "softmax exp32 \<lparr>shape = [33554432], total_size = 33554432, dtype = FLOAT32,
                   data = replicate 33554432 (Fin 0)\<rparr> =
     Inr \<lparr>shape = [33554432], total_size = 33554432, dtype = FLOAT32,
          data = replicate 33554432 (Fin (1 / 16777216))\<rparr> \<and>
   sum_list (map val (replicate 33554432 (Fin (1 / 16777216)))) = 2 \<and>
   Fin (1 / 16777216) \<noteq> Fin (1 / 33554432)"
proof -
  let ?t = "\<lparr>shape = [33554432], total_size = 33554432, dtype = FLOAT32,
                   data = replicate 33554432 (Fin 0)\<rparr>"
  have r: "rnd (1 / 16777216) = Fin (1 / 16777216)"
    using is_f32_dyadic [of 1 "-24"] by (simp add: is_f32_def power_int_minus divide_simps)
  have "softmax exp32 ?t =
      Inr (?t\<lparr>data := replicate (total_size ?t) (rnd (1 / real (min (total_size ?t) 16777216)))\<rparr>)"
    by (rule softmax_uniform [where c = "Fin 0"]) simp_all
  then have "softmax exp32 ?t =
     Inr \<lparr>shape = [33554432], total_size = 33554432, dtype = FLOAT32,
          data = replicate 33554432 (Fin (1 / 16777216))\<rparr>"
    by (simp add: r)
  then show ?thesis by (simp add: sum_list_replicate)
qed

text \<open>
  Claim C8, amended. \<^verbatim>\<open>softmax\<close> fails with \<open>EmptyInput\<close> on a tensor of size 0. On a tensor of
  non-zero size (whose buffer holds \<open>total_size\<close> elements) it computes in binary32: the
  maximum element, the exponential of every element minus the maximum, the sum of these
  exponentials accumulated in the order of the elements, the quotient \<^verbatim>\<open>1.0f / sum\<close>, and
  the product of every exponential with that quotient. For finite elements (of any
  magnitude) and a \<^verbatim>\<open>std::exp\<close> with the properties \<open>exp_like\<close>, the maximum found is an
  element that no element exceeds, and every output is a finite value in \<open>[0, 1]\<close>: no NaN
  and no infinity; for \<open>n \<le> 1024\<close> such elements the outputs sum to 1 within
  \<open>(n + 3) / 2 ^ 24\<close>, hence within \<open>1e-6\<close> for \<open>n \<le> 13\<close>. For \<open>n\<close> equal finite elements every
  output is the binary32 value nearest to \<open>1 / min n (2 ^ 24)\<close>; for \<open>n \<le> 2 ^ 24\<close> this is the
  rounded uniform value \<open>1 / n\<close>, and the outputs sum to 1 within \<open>2 ^ -24\<close>.
\<close>

theorem softmax_numerics:
  "(total_size t = 0 \<longrightarrow> softmax fexp t = Inl EmptyInput) \<and>
   (total_size t \<noteq> 0 \<and> length (data t) = total_size t \<longrightarrow>
      softmax fexp t =
        Inr (t\<lparr>data :=
               map (\<lambda>x. fmul (fexp (fsub x (max32 (data t))))
                           (fdiv (Fin 1)
                              (sum32 (map (\<lambda>z. fexp (fsub z (max32 (data t)))) (data t)))))
                 (data t)\<rparr>) \<and>
      (all_finite t \<and> exp_like fexp \<longrightarrow>
         max32 (data t) \<in> set (data t) \<and>
         (\<forall>x \<in> set (data t). val x \<le> val (max32 (data t))) \<and>
         (\<exists>u. softmax fexp t = Inr u \<and> shape u = shape t \<and>
              length (data u) = length (data t) \<and>
              (\<forall>y \<in> set (data u). finite32 y \<and> 0 \<le> val y \<and> val y \<le> 1)) \<and>
         (total_size t \<le> 1024 \<longrightarrow>
            (\<exists>u. softmax fexp t = Inr u \<and>
                 \<bar>sum_list (map val (data u)) - 1\<bar> \<le> (real (total_size t) + 3) / 2 ^ 24)) \<and>
         (total_size t \<le> 13 \<longrightarrow>
            (\<exists>u. softmax fexp t = Inr u \<and>
                 \<bar>sum_list (map val (data u)) - 1\<bar> \<le> 1 / 10 ^ 6))) \<and>
      (finite32 c \<and> data t = replicate (total_size t) c \<and> fexp (Fin 0) = Fin 1 \<longrightarrow>
         softmax fexp t =
           Inr (t\<lparr>data :=
                  replicate (total_size t) (rnd (1 / real (min (total_size t) 16777216)))\<rparr>) \<and>
         (total_size t \<le> 16777216 \<longrightarrow>
            softmax fexp t =
              Inr (t\<lparr>data := replicate (total_size t) (rnd (1 / real (total_size t)))\<rparr>) \<and>
            finite32 (rnd (1 / real (total_size t))) \<and>
            \<bar>sum_list (map val (replicate (total_size t) (rnd (1 / real (total_size t))))) - 1\<bar>
              \<le> 1 / 2 ^ 24)))"
proof (intro conjI impI)
  assume "total_size t = 0"
  then show "softmax fexp t = Inl EmptyInput" by (simp add: softmax_def)
next
  assume a: "total_size t \<noteq> 0 \<and> length (data t) = total_size t"
  then show "softmax fexp t =
        Inr (t\<lparr>data :=
               map (\<lambda>x. fmul (fexp (fsub x (max32 (data t))))
                           (fdiv (Fin 1)
                              (sum32 (map (\<lambda>z. fexp (fsub z (max32 (data t)))) (data t)))))
                 (data t)\<rparr>)"
    by (simp add: softmax_ok)
  {
    assume b: "all_finite t \<and> exp_like fexp"
    have ne: "data t \<noteq> []" using a by auto
    from max32_finite [OF ne] b
    show "max32 (data t) \<in> set (data t)" "\<forall>x \<in> set (data t). val x \<le> val (max32 (data t))"
      by (simp_all add: all_finite_def)
    from softmax_range [of t fexp] a b
    show "\<exists>u. softmax fexp t = Inr u \<and> shape u = shape t \<and>
              length (data u) = length (data t) \<and>
              (\<forall>y \<in> set (data u). finite32 y \<and> 0 \<le> val y \<and> val y \<le> 1)"
      by blast
    {
      assume "total_size t \<le> 1024"
      with softmax_sum [of t fexp] a b
      show "\<exists>u. softmax fexp t = Inr u \<and>
                 \<bar>sum_list (map val (data u)) - 1\<bar> \<le> (real (total_size t) + 3) / 2 ^ 24"
        by blast
    }
    assume n13: "total_size t \<le> 13"
    with softmax_sum [of t fexp] a b
    obtain u where u: "softmax fexp t = Inr u"
      "\<bar>sum_list (map val (data u)) - 1\<bar> \<le> (real (total_size t) + 3) / 2 ^ 24"
      by auto
    have "(real (total_size t) + 3) / 2 ^ 24 \<le> 16 / 2 ^ 24"
      using n13 by (intro divide_right_mono) simp_all
    also have "\<dots> \<le> (1 / 10 ^ 6 :: real)" by simp
    finally have "\<bar>sum_list (map val (data u)) - 1\<bar> \<le> 1 / 10 ^ 6" using u(2) by simp
    with u(1) show "\<exists>u. softmax fexp t = Inr u \<and>
                 \<bar>sum_list (map val (data u)) - 1\<bar> \<le> 1 / 10 ^ 6"
      by blast
  }
  assume c: "finite32 c \<and> data t = replicate (total_size t) c \<and> fexp (Fin 0) = Fin 1"
  with a show u: "softmax fexp t =
           Inr (t\<lparr>data :=
                  replicate (total_size t) (rnd (1 / real (min (total_size t) 16777216)))\<rparr>)"
    by (intro softmax_uniform) simp_all
  assume le: "total_size t \<le> 16777216"
  then show "softmax fexp t =
              Inr (t\<lparr>data := replicate (total_size t) (rnd (1 / real (total_size t)))\<rparr>)"
    using u by (simp add: min_def)
  from rnd_reciprocal [of "total_size t"] a le
  obtain r where r: "rnd (1 / real (total_size t)) = Fin r" "is_f32 r"
    "\<bar>real (total_size t) * r - 1\<bar> \<le> 1 / 2 ^ 24"
    by auto
  then show "finite32 (rnd (1 / real (total_size t)))" by simp
  show "\<bar>sum_list (map val (replicate (total_size t) (rnd (1 / real (total_size t))))) - 1\<bar>
              \<le> 1 / 2 ^ 24"
    using r by (simp add: sum_list_replicate)
qed

theorem softmax_numerics_witness:
  "softmax exp32 \<lparr>shape = [2], total_size = 2, dtype = FLOAT32, data = [Fin 1, Fin 1]\<rparr> =
     Inr \<lparr>shape = [2], total_size = 2, dtype = FLOAT32, data = [Fin (1 / 2), Fin (1 / 2)]\<rparr> \<and>
   softmax exp32 \<lparr>shape = [], total_size = 0, dtype = FLOAT32, data = []\<rparr> = Inl EmptyInput \<and>
   max32 [Fin 1, Fin 1] = Fin 1 \<and> finite32 (Fin (1 / 2)) \<and>
   \<bar>sum_list (map val [Fin (1 / 2), Fin (1 / 2)]) - 1\<bar> \<le> 1 / 2 ^ 24 \<and>
   (\<exists>u. softmax exp32 \<lparr>shape = [2], total_size = 2, dtype = FLOAT32, data = [Fin 1, Fin 1]\<rparr> =
          Inr u \<and>
        \<bar>sum_list (map val (data u)) - 1\<bar> \<le> 1 / 10 ^ 6)"
proof -
  let ?t = "\<lparr>shape = [2], total_size = 2, dtype = FLOAT32, data = [Fin 1, Fin 1]\<rparr>"
  let ?e = "\<lparr>shape = [], total_size = 0, dtype = FLOAT32, data = [] :: f32 list\<rparr>"
  have half: "rnd (1 / 2) = Fin (1 / 2)"
    using is_f32_dyadic [of 1 "-1"] by (simp add: is_f32_def power_int_minus divide_simps)
  have hyp: "total_size ?t \<noteq> 0 \<and> length (data ?t) = total_size ?t"
    by simp
  have fin: "all_finite ?t \<and> exp_like exp32"
    by (simp add: all_finite_def exp_like_exp32)
  have uni: "finite32 (Fin 1) \<and> data ?t = replicate (total_size ?t) (Fin 1) \<and> exp32 (Fin 0) = Fin 1"
    by (simp add: numeral_2_eq_2)
  have le: "total_size ?t \<le> 16777216" by simp
  note sn = softmax_numerics [of ?t exp32 "Fin 1"]
  from sn hyp uni le
  have 1: "softmax exp32 ?t =
      Inr (?t\<lparr>data := replicate (total_size ?t) (rnd (1 / real (total_size ?t)))\<rparr>)"
    by blast
  from sn hyp fin have 3: "max32 (data ?t) \<in> set (data ?t)" by blast
  from sn hyp uni le
  have 4: "finite32 (rnd (1 / real (total_size ?t)))"
    "\<bar>sum_list (map val (replicate (total_size ?t) (rnd (1 / real (total_size ?t))))) - 1\<bar>
       \<le> 1 / 2 ^ 24"
    by blast+
  have n13: "total_size ?t \<le> 13" by simp
  from sn hyp fin n13
  have 5: "\<exists>u. softmax exp32 ?t = Inr u \<and> \<bar>sum_list (map val (data u)) - 1\<bar> \<le> 1 / 10 ^ 6"
    by blast
  have 2: "softmax exp32 ?e = Inl EmptyInput"
    using softmax_numerics [of ?e exp32] by simp
  from 1 2 3 4 have "softmax exp32 ?t =
      Inr \<lparr>shape = [2], total_size = 2, dtype = FLOAT32, data = [Fin (1 / 2), Fin (1 / 2)]\<rparr> \<and>
    softmax exp32 ?e = Inl EmptyInput \<and>
    max32 [Fin 1, Fin 1] = Fin 1 \<and> finite32 (Fin (1 / 2)) \<and>
    \<bar>sum_list (map val [Fin (1 / 2), Fin (1 / 2)]) - 1\<bar> \<le> 1 / 2 ^ 24"
    by (simp add: half numeral_2_eq_2)
  with 5 show ?thesis by (simp only: simp_thms)
qed
section \<open>Construction, copy and reshape\<close>

lemma reshape_prod: "prod_list s < 2 ^ 64 \<Longrightarrow> foldl size_mul (Suc 0) s = prod_list s"
  using calculateTotalSize_fits [of s] by (simp add: calculateTotalSize_def)

text \<open>
  The invariants of a tensor, where no product of dimensions reaches \<open>2 ^ 64\<close>. A tensor
  constructed from a shape, or from a shape and data, satisfies the four invariants;
  construction fails with \<open>InvalidShape\<close> on an empty shape or a zero dimension and with
  \<open>SizeMismatch\<close> on data of the wrong length. A copy of a tensor satisfying the invariants
  is equal to it. \<^verbatim>\<open>reshape\<close> fails with \<open>InvalidArgument\<close> when the product of the new shape
  differs from the size; when it succeeds on a tensor satisfying the invariants, the
  buffer is untouched, no dimension is zero, the size is the product of the shape and
  the length of the buffer, and all four invariants hold provided the new shape is not
  empty.
\<close>

theorem tensor_invariants:
  "(prod_list s < 2 ^ 64 \<and> Tensor_new s dt = Inr t \<longrightarrow> tensor_inv t \<and> shape t = s) \<and>
   (prod_list s < 2 ^ 64 \<and> Tensor_of s d dt = Inr t \<longrightarrow>
      tensor_inv t \<and> shape t = s \<and> data t = d) \<and>
   (s = [] \<or> 0 \<in> set s \<longrightarrow> Tensor_of s d dt = Inl InvalidShape) \<and>
   (s \<noteq> [] \<and> 0 \<notin> set s \<and> prod_list s < 2 ^ 64 \<and> length d \<noteq> prod_list s \<longrightarrow>
      Tensor_of s d dt = Inl SizeMismatch) \<and>
   (tensor_inv t \<longrightarrow> Tensor_copy t = Inr t) \<and>
   (prod_list s' < 2 ^ 64 \<and> prod_list s' \<noteq> total_size t \<longrightarrow>
      reshape t s' = Inl InvalidArgument) \<and>
   (prod_list s' < 2 ^ 64 \<and> tensor_inv t \<and> reshape t s' = Inr r \<longrightarrow>
      shape r = s' \<and> data r = data t \<and>
      \<not> list_ex (\<lambda>dim. dim = 0) (shape r) \<and> total_size r = prod_list (shape r) \<and>
      length (data r) = total_size r \<and> (s' \<noteq> [] \<longrightarrow> tensor_inv r))"
proof (intro conjI impI)
  assume "prod_list s < 2 ^ 64 \<and> Tensor_new s dt = Inr t"
  then show "tensor_inv t" "shape t = s"
    by (auto simp: Tensor_new_def validateShape_def tensor_inv_def calculateTotalSize_fits Let_def
        split: if_splits)
next
  assume "prod_list s < 2 ^ 64 \<and> Tensor_of s d dt = Inr t"
  then show "tensor_inv t" "shape t = s" "data t = d"
    by (auto simp: Tensor_of_def validateShape_def tensor_inv_def calculateTotalSize_fits Let_def
        split: if_splits)
next
  assume "s = [] \<or> 0 \<in> set s"
  then show "Tensor_of s d dt = Inl InvalidShape"
    by (auto simp: Tensor_of_def validateShape_def list_ex_iff)
next
  assume "s \<noteq> [] \<and> 0 \<notin> set s \<and> prod_list s < 2 ^ 64 \<and> length d \<noteq> prod_list s"
  then show "Tensor_of s d dt = Inl SizeMismatch"
    by (auto simp: Tensor_of_def validateShape_def list_ex_iff calculateTotalSize_fits Let_def)
next
  assume "tensor_inv t"
  then show "Tensor_copy t = Inr t"
    by (simp add: Tensor_copy_def tensor_inv_def)
next
  assume "prod_list s' < 2 ^ 64 \<and> prod_list s' \<noteq> total_size t"
  then show "reshape t s' = Inl InvalidArgument"
    by (simp add: reshape_def Let_def reshape_prod)
next
  assume a: "prod_list s' < 2 ^ 64 \<and> tensor_inv t \<and> reshape t s' = Inr r"
  then have r: "r = t\<lparr>shape := s'\<rparr>" and p: "prod_list s' = total_size t"
    by (auto simp: reshape_def Let_def reshape_prod split: if_splits)
  have "prod_list (shape t) \<noteq> 0"
    using a by (simp add: tensor_inv_def list_ex_iff prod_list_zero_iff)
  then have "prod_list s' \<noteq> 0" using a p by (simp add: tensor_inv_def)
  then have nz: "\<not> list_ex (\<lambda>dim. dim = 0) s'"
    by (auto simp: list_ex_iff prod_list_zero_iff)
  show "shape r = s'" "data r = data t" using r by simp_all
  show "\<not> list_ex (\<lambda>dim. dim = 0) (shape r)" using r nz by simp
  show "total_size r = prod_list (shape r)" using r p by simp
  show "length (data r) = total_size r" using a r by (simp add: tensor_inv_def)
  show "tensor_inv r" if "s' \<noteq> []"
    using that a r p nz by (simp add: tensor_inv_def)
qed

theorem tensor_invariants_witness:
  "Tensor_of [2, 3] [Fin 1, Fin 2, Fin 3, Fin 4, Fin 5, Fin 6] FLOAT32 =
     Inr \<lparr>shape = [2, 3], total_size = 6, dtype = FLOAT32,
          data = [Fin 1, Fin 2, Fin 3, Fin 4, Fin 5, Fin 6]\<rparr> \<and>
   tensor_inv \<lparr>shape = [2, 3], total_size = 6, dtype = FLOAT32,
               data = [Fin 1, Fin 2, Fin 3, Fin 4, Fin 5, Fin 6]\<rparr> \<and>
   reshape \<lparr>shape = [2, 3], total_size = 6, dtype = FLOAT32,
            data = [Fin 1, Fin 2, Fin 3, Fin 4, Fin 5, Fin 6]\<rparr> [3, 2] =
     Inr \<lparr>shape = [3, 2], total_size = 6, dtype = FLOAT32,
          data = [Fin 1, Fin 2, Fin 3, Fin 4, Fin 5, Fin 6]\<rparr> \<and>
   tensor_inv \<lparr>shape = [3, 2], total_size = 6, dtype = FLOAT32,
               data = [Fin 1, Fin 2, Fin 3, Fin 4, Fin 5, Fin 6]\<rparr> \<and>
   reshape \<lparr>shape = [2, 3], total_size = 6, dtype = FLOAT32,
            data = [Fin 1, Fin 2, Fin 3, Fin 4, Fin 5, Fin 6]\<rparr> [2, 4] =
     Inl InvalidArgument \<and>
   Tensor_of [2, 0] ([] :: f32 list) FLOAT32 = Inl InvalidShape"
proof -
  let ?d = "[Fin 1, Fin 2, Fin 3, Fin 4, Fin 5, Fin 6]"
  let ?t = "\<lparr>shape = [2, 3], total_size = 6, dtype = FLOAT32, data = ?d\<rparr>"
  let ?r = "\<lparr>shape = [3, 2], total_size = 6, dtype = FLOAT32, data = ?d\<rparr>"
  have new: "Tensor_of [2, 3] ?d FLOAT32 = Inr ?t"
    by (simp add: Tensor_of_def validateShape_def calculateTotalSize_def size_mul_def)
  have inv: "tensor_inv ?t"
    using tensor_invariants [of "[2, 3]" FLOAT32 ?t ?d] new by simp
  have rs: "reshape ?t [3, 2] = Inr ?r"
    by (simp add: reshape_def size_mul_def)
  have inv2: "tensor_inv ?r"
    using tensor_invariants [of _ _ ?t _ "[3, 2]" ?r] inv rs by simp
  have bad: "reshape ?t [2, 4] = Inl InvalidArgument"
    using tensor_invariants [of _ _ ?t _ "[2, 4]"] by simp
  have zero: "Tensor_of [2, 0] ([] :: f32 list) FLOAT32 = Inl InvalidShape"
    using tensor_invariants [of "[2, 0]" FLOAT32 ?t "[]" "[]" ?t] by simp
  from new inv rs inv2 bad zero show ?thesis by blast
qed

text \<open>
  Without that bound the constructor itself breaks the invariants: the size of
  \<^verbatim>\<open>Tensor({65536, 65536, 65536, 65536})\<close> is computed as \<open>2 ^ 64 mod 2 ^ 64 = 0\<close>, so the
  tensor has an empty buffer under a shape whose product is \<open>2 ^ 64\<close>.
\<close>

theorem constructor_wraps:
  "(Tensor_new [65536, 65536, 65536, 65536] FLOAT32 :: error + f32 Tensor) =
     Inr \<lparr>shape = [65536, 65536, 65536, 65536], total_size = 0, dtype = FLOAT32, data = []\<rparr> \<and>
   \<not> tensor_inv \<lparr>shape = [65536, 65536, 65536, 65536], total_size = 0, dtype = FLOAT32,
                  data = [] :: f32 list\<rparr>"
  by (simp add: Tensor_new_def validateShape_def calculateTotalSize_def size_mul_def
      tensor_inv_def)

end
